theory Spec2Isabelle
  imports Main
begin

section \<open>JavaScript values\<close>

text \<open>
  A JavaScript string is modelled as a \<^typ>\<open>string\<close>; a character stands for the UTF-16
  code unit of the same number, so the model covers the strings whose code units are below
  256. The accented letters of the Portuguese messages are written by their code unit
  (\<open>CHR 0xF3\<close> is o with acute accent).

  A variable that holds a string or nothing (\<open>inviteCode?: string\<close>, the local
  \<open>inviterUid\<close>, the \<open>token\<close> state) is a \<^typ>\<open>string option\<close>. JavaScript's
  conditionals take \<open>undefined\<close>, \<open>null\<close> and the empty string as false.

  A field written to a document holds a value or \<open>null\<close>; \<open>undefined\<close> is not a value
  the document database stores, so the type of a stored field has no place for it.
\<close>

datatype 'a nullable = Null | Value 'a

definition truthy :: "string option \<Rightarrow> bool" where
  "truthy v = (case v of None \<Rightarrow> False | Some s \<Rightarrow> s \<noteq> [])"

text \<open>\<open>s.charAt(i)\<close>: the one-character string at index \<open>i\<close>, the empty string out of range.\<close>

definition charAt :: "string \<Rightarrow> nat \<Rightarrow> string" where
  "charAt s i = (if i < length s then [s ! i] else [])"

text \<open>\<open>s.includes(p)\<close>: \<open>p\<close> occurs in \<open>s\<close> as a contiguous substring.\<close>

fun startsWith :: "string \<Rightarrow> string \<Rightarrow> bool" where
  "startsWith s [] = True"
| "startsWith [] (p # ps) = False"
| "startsWith (c # cs) (p # ps) = (c = p \<and> startsWith cs ps)"

fun includes_str :: "string \<Rightarrow> string \<Rightarrow> bool" where
  "includes_str [] p = (p = [])"
| "includes_str (c # cs) p = (startsWith (c # cs) p \<or> includes_str cs p)"

text \<open>
  What a \<open>catch\<close> block can receive: a plain \<open>new Error(message)\<close>, which has no \<open>code\<close>
  property, or an error of the vendor SDK, which carries a code and a message.
\<close>

datatype error = Error string | FirebaseError string string

fun code :: "error \<Rightarrow> string option" where
  "code (Error msg) = None"
| "code (FirebaseError cd msg) = Some cd"

fun message :: "error \<Rightarrow> string" where
  "message (Error msg) = msg"
| "message (FirebaseError cd msg) = msg"

section \<open>The managed service and the client state\<close>

datatype timestamp = ServerTimestamp

record user_doc =
  email :: string
  balance :: int
  inviteCode :: string
  invitedBy :: "string nullable"
  totalEarned :: int
  totalWithdrawn :: int
  role :: string
  createdAt :: timestamp

record invite_doc =
  inviterId :: string
  invitedId :: string
  level :: int
  status :: string
  invite_createdAt :: timestamp

record credential =
  uid :: string
  cred_email :: "string option"

text \<open>
  Every request the client issues is recorded, in order: the calls of the vendor SDK
  (document database and identity provider) and the requests of the browser's \<open>fetch\<close>.
  A query is recorded with its collection, field and compared value, a document access
  with its collection and document id, a \<open>fetch\<close> with its URL and headers.
\<close>

datatype call =
    GetDocs string string string
  | GetDoc string string
  | SetDoc string string
  | AddDoc string
  | CreateUserWithEmailAndPassword string string
  | SignInWithEmailAndPassword string string
  | GetIdToken bool
  | SignOut
  | Fetch string "(string \<times> string) list"

text \<open>
  The state: the \<open>users\<close> collection as a list of (document id, document), in the order in
  which a query returns the documents; the \<open>invites\<close> collection (its document ids are
  chosen by the vendor and never read, so they are left out); the accounts of the identity
  provider as (uid, email) and its signed-in user; the calls issued so far; the number of
  random values drawn so far; and the two React states of the provider, \<open>token\<close> and \<open>user\<close>.
  The \<open>user\<close> state holds \<open>{id, email, ...data}\<close>: the document's fields under the
  account's uid (the document's own \<open>email\<close> field overrides the account's).
  The state is the one this client sees while one of its functions runs: writes of other
  clients between two of its calls are not modelled.
\<close>

record world =
  users :: "(string \<times> user_doc) list"
  invites :: "invite_doc list"
  accounts :: "(string \<times> string) list"
  currentUser :: "credential option"
  calls :: "call list"
  draws :: nat
  token :: "string option"
  user :: "(string \<times> user_doc) option"

text \<open>
  What the code does not decide: \<open>fault n\<close> is the code and message with which the vendor
  rejects the call issued after \<open>n\<close> earlier requests (\<open>None\<close>: the call is served);
  \<open>credential\<close> is the account a served sign-up or sign-in returns; \<open>idToken\<close> is the token a
  served \<open>getIdToken\<close> returns; \<open>random k\<close> is the value of
  \<open>Math.floor(Math.random() * chars.length)\<close> at the draw after \<open>k\<close> earlier ones;
  \<open>toUpperCase s\<close> is the value of \<open>s.toUpperCase()\<close>, the conversion built into JavaScript
  strings, which the code calls and does not define.
\<close>

record env =
  fault :: "nat \<Rightarrow> (string \<times> string) option"
  credential :: credential
  idToken :: string
  random :: "nat \<Rightarrow> nat"
  toUpperCase :: "string \<Rightarrow> string"

section \<open>Awaited calls\<close>

text \<open>
  An \<open>async\<close> function is a function from the state to its outcome and the state it
  leaves: \<open>Inl\<close> a thrown error (a rejected promise), \<open>Inr\<close> the value returned.
\<close>

type_synonym 'a io = "world \<Rightarrow> (error + 'a) \<times> world"

definition return :: "'a \<Rightarrow> 'a io" where
  "return x w = (Inr x, w)"

definition throw :: "error \<Rightarrow> 'a io" where
  "throw err w = (Inl err, w)"

definition bind :: "'a io \<Rightarrow> ('a \<Rightarrow> 'b io) \<Rightarrow> 'b io" where
  "bind m f w = (case m w of (Inl err, w') \<Rightarrow> (Inl err, w') | (Inr x, w') \<Rightarrow> f x w')"

text \<open>\<open>try { m } catch (error) { h error }\<close> where the handler always throws.\<close>

definition try_catch :: "'a io \<Rightarrow> (error \<Rightarrow> error) \<Rightarrow> 'a io" where
  "try_catch m h w = (case m w of (Inl err, w') \<Rightarrow> (Inl (h err), w') | (Inr x, w') \<Rightarrow> (Inr x, w'))"

definition modify :: "(world \<Rightarrow> world) \<Rightarrow> unit io" where
  "modify f w = (Inr (), f w)"

text \<open>A call of the vendor SDK: recorded when issued, then served or rejected.\<close>

definition sdk :: "env \<Rightarrow> call \<Rightarrow> unit io" where
  "sdk e c w =
     (let w' = w\<lparr>calls := calls w @ [c]\<rparr>
      in case fault e (length (calls w)) of
           None \<Rightarrow> (Inr (), w')
         | Some (cd, msg) \<Rightarrow> (Inl (FirebaseError cd msg), w'))"

text \<open>\<open>getDocs(query(collection(db, 'users'), where('inviteCode', '==', v)))\<close>\<close>

definition getDocs_inviteCode :: "env \<Rightarrow> string \<Rightarrow> (string \<times> user_doc) list io" where
  "getDocs_inviteCode e v =
     bind (sdk e (GetDocs ''users'' ''inviteCode'' v))
       (\<lambda>_ w. (Inr (filter (\<lambda>d. inviteCode (snd d) = v) (users w)), w))"

section \<open>Invite codes\<close>

definition chars :: string where
  "chars = ''ABCDEFGHIJKLMNOPQRSTUVWXYZ0123456789''"

function generateInviteCode_loop :: "env \<Rightarrow> nat \<Rightarrow> string \<Rightarrow> world \<Rightarrow> string \<times> world" where
  "generateInviteCode_loop e i cod w =
     (if i < 6
      then generateInviteCode_loop e (i + 1) (cod @ charAt chars (random e (draws w)))
             (w\<lparr>draws := draws w + 1\<rparr>)
      else (cod, w))"
  by pat_completeness auto
termination
  by (relation "measure (\<lambda>(e, i, cod, w). 6 - i)") auto

definition generateInviteCode :: "env \<Rightarrow> world \<Rightarrow> string \<times> world" where
  "generateInviteCode e w = generateInviteCode_loop e 0 ''MP'' w"

definition checkInviteCodeExists :: "env \<Rightarrow> string \<Rightarrow> bool io" where
  "checkInviteCodeExists e cod =
     bind (getDocs_inviteCode e cod) (\<lambda>snapshot. return (snapshot \<noteq> []))"

text \<open>
  The loop of \<open>generateUniqueInviteCode\<close>. Its condition awaits the existence check first
  and compares the counter second, so the check runs on every evaluation of the condition.
\<close>

function generateUniqueInviteCode_loop :: "env \<Rightarrow> string \<Rightarrow> nat \<Rightarrow> string io" where
  "generateUniqueInviteCode_loop e cod attempts w =
     (case checkInviteCodeExists e cod w of
        (Inl err, w') \<Rightarrow> (Inl err, w')
      | (Inr ex, w') \<Rightarrow>
          if ex \<and> attempts < 10
          then (case generateInviteCode e w' of
                  (cod', w'') \<Rightarrow> generateUniqueInviteCode_loop e cod' (attempts + 1) w'')
          else (Inr cod, w'))"
  by pat_completeness auto
termination
  by (relation "measure (\<lambda>(e, cod, attempts, w). 10 - attempts)") auto

definition generateUniqueInviteCode :: "env \<Rightarrow> string io" where
  "generateUniqueInviteCode e w =
     (case generateInviteCode e w of
        (cod, w') \<Rightarrow> generateUniqueInviteCode_loop e cod 0 w')"

section \<open>The calls of the vendor SDK\<close>

text \<open>
  A served sign-up creates the account and signs it in; a served sign-in signs in.
  \<open>setDoc\<close> replaces the document of that id or adds it; \<open>addDoc\<close> adds a document.
  A rejected call changes nothing.
\<close>

definition createUserWithEmailAndPassword :: "env \<Rightarrow> string \<Rightarrow> string \<Rightarrow> credential io" where
  "createUserWithEmailAndPassword e em pw =
     bind (sdk e (CreateUserWithEmailAndPassword em pw))
       (\<lambda>_ w. (Inr (credential e),
                w\<lparr>accounts := accounts w @ [(uid (credential e), em)],
                  currentUser := Some (credential e)\<rparr>))"

definition signInWithEmailAndPassword :: "env \<Rightarrow> string \<Rightarrow> string \<Rightarrow> credential io" where
  "signInWithEmailAndPassword e em pw =
     bind (sdk e (SignInWithEmailAndPassword em pw))
       (\<lambda>_ w. (Inr (credential e), w\<lparr>currentUser := Some (credential e)\<rparr>))"

definition firebaseSignOut :: "env \<Rightarrow> unit io" where
  "firebaseSignOut e = bind (sdk e SignOut) (\<lambda>_. modify (\<lambda>w. w\<lparr>currentUser := None\<rparr>))"

definition getIdToken :: "env \<Rightarrow> bool \<Rightarrow> string io" where
  "getIdToken e forceRefresh = bind (sdk e (GetIdToken forceRefresh)) (\<lambda>_. return (idToken e))"

fun upsert :: "string \<Rightarrow> user_doc \<Rightarrow> (string \<times> user_doc) list \<Rightarrow> (string \<times> user_doc) list" where
  "upsert k v [] = [(k, v)]"
| "upsert k v (p # ps) = (if fst p = k then (k, v) # ps else p # upsert k v ps)"

definition setDoc_users :: "env \<Rightarrow> string \<Rightarrow> user_doc \<Rightarrow> unit io" where
  "setDoc_users e k v =
     bind (sdk e (SetDoc ''users'' k)) (\<lambda>_. modify (\<lambda>w. w\<lparr>users := upsert k v (users w)\<rparr>))"

definition addDoc_invites :: "env \<Rightarrow> invite_doc \<Rightarrow> unit io" where
  "addDoc_invites e v =
     bind (sdk e (AddDoc ''invites'')) (\<lambda>_. modify (\<lambda>w. w\<lparr>invites := invites w @ [v]\<rparr>))"

text \<open>\<open>getDoc(doc(db, 'users', k))\<close>: \<open>None\<close> when the snapshot does not exist.\<close>

definition getDoc_users :: "env \<Rightarrow> string \<Rightarrow> user_doc option io" where
  "getDoc_users e k =
     bind (sdk e (GetDoc ''users'' k)) (\<lambda>_ w. (Inr (map_of (users w) k), w))"

section \<open>The authentication provider\<close>

text \<open>
  The listener of \<open>onAuthStateChanged\<close> and its \<open>onSnapshot\<close> subscription run
  concurrently with the functions below and are not modelled.
\<close>

definition msg_invalid_invite :: string where
  "msg_invalid_invite = ''C'' @ [CHR 0xF3] @ ''digo de convite inv'' @ [CHR 0xE1] @ ''lido''"

definition msg_email_in_use :: string where
  "msg_email_in_use = ''Email j'' @ [CHR 0xE1] @ '' cadastrado''"

definition msg_invalid_login :: string where
  "msg_invalid_login = ''Email ou senha inv'' @ [CHR 0xE1] @ ''lidos''"

text \<open>The lookup of the referring user, lines 123 to 135 of \<open>register\<close>.\<close>

definition lookupInviter :: "env \<Rightarrow> string option \<Rightarrow> string option io" where
  "lookupInviter e inviteCodeArg =
     (case inviteCodeArg of
        None \<Rightarrow> return None
      | Some c \<Rightarrow>
          if c = [] then return None
          else bind (getDocs_inviteCode e (toUpperCase e c))
                 (\<lambda>snapshot. case snapshot of
                                [] \<Rightarrow> throw (Error msg_invalid_invite)
                              | d # ds \<Rightarrow> return (Some (fst d))))"

text \<open>\<open>inviterUid || null\<close>\<close>

definition or_null :: "string option \<Rightarrow> string nullable" where
  "or_null v = (case v of None \<Rightarrow> Null | Some s \<Rightarrow> if s = [] then Null else Value s)"

definition register_try :: "env \<Rightarrow> string \<Rightarrow> string \<Rightarrow> string option \<Rightarrow> unit io" where
  "register_try e em pw inviteCodeArg =
     bind (lookupInviter e inviteCodeArg) (\<lambda>inviterUid.
     bind (createUserWithEmailAndPassword e em pw) (\<lambda>userCredential.
     bind (getIdToken e False) (\<lambda>tok.
     bind (modify (\<lambda>w. w\<lparr>token := Some tok\<rparr>)) (\<lambda>_.
     bind (generateUniqueInviteCode e) (\<lambda>newInviteCode.
     bind (setDoc_users e (uid userCredential)
             \<lparr>email = em, balance = 0, inviteCode = newInviteCode,
              invitedBy = or_null inviterUid, totalEarned = 0, totalWithdrawn = 0,
              role = ''user'', createdAt = ServerTimestamp\<rparr>) (\<lambda>_.
     (case inviterUid of
        None \<Rightarrow> return ()
      | Some i \<Rightarrow>
          if i = [] then return ()
          else addDoc_invites e
                 \<lparr>inviterId = i, invitedId = uid userCredential, level = 1,
                  status = ''pending'', invite_createdAt = ServerTimestamp\<rparr>)))))))"

definition register_catch :: "error \<Rightarrow> error" where
  "register_catch err =
     (if code err = Some ''auth/email-already-in-use'' then Error msg_email_in_use else err)"

definition register :: "env \<Rightarrow> string \<Rightarrow> string \<Rightarrow> string option \<Rightarrow> unit io" where
  "register e em pw inviteCodeArg = try_catch (register_try e em pw inviteCodeArg) register_catch"

definition login_try :: "env \<Rightarrow> string \<Rightarrow> string \<Rightarrow> unit io" where
  "login_try e em pw =
     bind (signInWithEmailAndPassword e em pw) (\<lambda>userCredential.
     bind (getIdToken e False) (\<lambda>tok.
     bind (modify (\<lambda>w. w\<lparr>token := Some tok\<rparr>)) (\<lambda>_.
     bind (getDoc_users e (uid userCredential)) (\<lambda>userDoc.
     (case userDoc of
        None \<Rightarrow> return ()
      | Some d \<Rightarrow> modify (\<lambda>w. w\<lparr>user := Some (uid userCredential, d)\<rparr>))))))"

definition login_catch :: "error \<Rightarrow> error" where
  "login_catch err =
     (if code err = Some ''auth/invalid-credential'' \<or> code err = Some ''auth/wrong-password''
      then Error msg_invalid_login else err)"

definition login :: "env \<Rightarrow> string \<Rightarrow> string \<Rightarrow> unit io" where
  "login e em pw = try_catch (login_try e em pw) login_catch"

definition logout :: "env \<Rightarrow> unit io" where
  "logout e = bind (firebaseSignOut e) (\<lambda>_. modify (\<lambda>w. w\<lparr>user := None, token := None\<rparr>))"

definition refreshUser :: "env \<Rightarrow> unit io" where
  "refreshUser e w =
     (case currentUser w of
        None \<Rightarrow> (Inr (), w)
      | Some cu \<Rightarrow>
          bind (getIdToken e True) (\<lambda>tok.
          bind (modify (\<lambda>w. w\<lparr>token := Some tok\<rparr>)) (\<lambda>_.
          bind (getDoc_users e (uid cu)) (\<lambda>userDoc.
          (case userDoc of
             None \<Rightarrow> return ()
           | Some d \<Rightarrow> modify (\<lambda>w. w\<lparr>user := Some (uid cu, d)\<rparr>))))) w)"

section \<open>The login page\<close>

text \<open>
  The state of the page that \<open>handleSubmit\<close> changes: the \<open>error\<close> and \<open>loading\<close> states,
  the toasts shown (by their description; the titles are fixed) and the routes navigated
  to. The page renders the \<open>error\<close> state when it is not empty.
\<close>

datatype toast = ToastSuccess string | ToastError string

record login_page =
  page_email :: string
  page_password :: string
  page_error :: string
  loading :: bool
  toasts :: "toast list"
  navigations :: "string list"

definition msg_user_not_found :: string where
  "msg_user_not_found = ''Usu'' @ [CHR 0xE1] @ ''rio n'' @ [CHR 0xE3] @ ''o encontrado.''"

definition errorMessage :: "error \<Rightarrow> string" where
  "errorMessage err =
     (if code err = Some ''auth/invalid-credential'' \<or> includes_str (message err) ''invalid-credential''
      then ''E-mail ou senha incorretos.''
      else if code err = Some ''auth/user-not-found'' then msg_user_not_found
      else if code err = Some ''auth/wrong-password'' then ''Senha incorreta.''
      else if code err = Some ''auth/too-many-requests''
      then ''Muitas tentativas falhas. Tente novamente mais tarde.''
      else ''Erro ao fazer login'')"

definition handleSubmit :: "env \<Rightarrow> login_page \<times> world \<Rightarrow> login_page \<times> world" where
  "handleSubmit e pw =
     (let p = (fst pw)\<lparr>page_error := [], loading := True\<rparr>
      in case login e (page_email p) (page_password p) (snd pw) of
           (Inr _, w') \<Rightarrow>
             (p\<lparr>toasts := toasts p @ [ToastSuccess ''Login realizado com sucesso''],
                navigations := navigations p @ [''/home''], loading := False\<rparr>, w')
         | (Inl err, w') \<Rightarrow>
             (p\<lparr>page_error := errorMessage err,
                toasts := toasts p @ [ToastError (errorMessage err)], loading := False\<rparr>, w'))"

section \<open>The home page\<close>

text \<open>
  The outcome of \<open>fetch\<close> is not decided by the code: the promise is rejected (\<open>Inl\<close>) or
  gives a response, whose \<open>json()\<close> is rejected or gives the parsed body. The body is
  stored as it comes, so its type is left open.
\<close>

record 'j response =
  ok :: bool
  resp_status :: int
  contentType :: "string option"
  json :: "error + 'j"

record 'j home_page =
  stats :: 'j
  loadingStats :: bool

definition fetchStats :: "(error + 'j response) \<Rightarrow> 'j home_page \<times> world \<Rightarrow> 'j home_page \<times> world" where
  "fetchStats outcome hw =
     (case token (snd hw) of
        None \<Rightarrow> hw
      | Some t \<Rightarrow>
          if t = [] then hw
          else
            let h = (fst hw)\<lparr>loadingStats := True\<rparr>;
                w = (snd hw)\<lparr>calls := calls (snd hw) @
                      [Fetch ''/api/stats/today'' [(''Authorization'', ''Bearer '' @ t)]]\<rparr>
            in case outcome of
                 Inl err \<Rightarrow> (h\<lparr>loadingStats := False\<rparr>, w)
               | Inr resp \<Rightarrow>
                   if ok resp \<and> truthy (contentType resp) \<and>
                      includes_str (case contentType resp of Some ct \<Rightarrow> ct | None \<Rightarrow> []) ''application/json''
                   then (case json resp of
                           Inl err \<Rightarrow> (h\<lparr>loadingStats := False\<rparr>, w)
                         | Inr data \<Rightarrow> (h\<lparr>stats := data, loadingStats := False\<rparr>, w))
                   else (h\<lparr>loadingStats := False\<rparr>, w))"

text \<open>
  Which requests go through the vendor SDK: the functions imported from
  \<open>firebase/auth\<close> and \<open>firebase/firestore\<close>, and \<open>getIdToken\<close> of the SDK's user object.
  \<open>fetch\<close> is the browser's.
\<close>

fun viaSdk :: "call \<Rightarrow> bool" where
  "viaSdk (Fetch url headers) = False"
| "viaSdk c = True"

section \<open>Notions used in the statements\<close>

text \<open>The invite codes stored in the \<open>users\<close> collection.\<close>

definition inviteCodes :: "world \<Rightarrow> string set" where
  "inviteCodes w = set (map (\<lambda>d. inviteCode (snd d)) (users w))"

text \<open>An existence check or lookup: a query of \<open>users\<close> by \<open>inviteCode\<close>.\<close>

definition isCheck :: "call \<Rightarrow> bool" where
  "isCheck c =
     (case c of GetDocs col fld v \<Rightarrow> col = ''users'' \<and> fld = ''inviteCode'' | _ \<Rightarrow> False)"

text \<open>The shape of a generated invite code: \<open>MP\<close> and six characters from A to Z and 0 to 9.\<close>

definition isUpperOrDigit :: "char \<Rightarrow> bool" where
  "isUpperOrDigit ch =
     (let n = (of_char ch :: nat) in (65 \<le> n \<and> n \<le> 90) \<or> (48 \<le> n \<and> n \<le> 57))"

definition wellFormedInviteCode :: "string \<Rightarrow> bool" where
  "wellFormedInviteCode c =
     (length c = 8 \<and> take 2 c = ''MP'' \<and> list_all isUpperOrDigit (drop 2 c))"

text \<open>
  An operation issues its requests through the vendor SDK only: whatever its outcome, the
  calls it adds to the record are all calls of the SDK.
\<close>

definition sdk_only :: "'a io \<Rightarrow> bool" where
  "sdk_only m = (\<forall>w r w'. m w = (r, w') \<longrightarrow> (\<exists>cs. calls w' = calls w @ cs \<and> list_all viaSdk cs))"

text \<open>
  The conversion of the example environments: the letters a to z become A to Z and every
  other code unit stays. On a string of code units below 128 this is what JavaScript's
  \<open>toUpperCase\<close> returns, and the examples convert such strings only.
\<close>

definition upperCaseAscii :: "string \<Rightarrow> string" where
  "upperCaseAscii s =
     map (\<lambda>c. let n = (of_char c :: nat) in if 97 \<le> n \<and> n \<le> 122 then char_of (n - 32) else c) s"

text \<open>
  Example inputs: a vendor that serves every call, with a random source that always draws
  index 0 (so that every generated code is \<open>MPAAAAAA\<close>); the same vendor with a random
  source that draws the indices 0, 1, 2 and so on (the first generated code is \<open>MPABCDEF\<close>);
  that vendor again, but rejecting the fourth call of a run; and a database where one user
  already holds the code \<open>MPAAAAAA\<close>.
\<close>

definition env_zero :: env where
  "env_zero = \<lparr>fault = (\<lambda>n. None), credential = \<lparr>uid = ''u2'', cred_email = Some ''b@x.io''\<rparr>,
     idToken = ''tok'', random = (\<lambda>k. 0), toUpperCase = upperCaseAscii\<rparr>"

definition env_count :: env where
  "env_count = \<lparr>fault = (\<lambda>n. None), credential = \<lparr>uid = ''u2'', cred_email = Some ''b@x.io''\<rparr>,
     idToken = ''tok'', random = (\<lambda>k. k mod 36), toUpperCase = upperCaseAscii\<rparr>"

definition env_fourth_rejected :: env where
  "env_fourth_rejected =
     \<lparr>fault = (\<lambda>n. if n = 3 then Some (''permission-denied'',
                ''Missing or insufficient permissions.'') else None),
      credential = \<lparr>uid = ''u2'', cred_email = Some ''b@x.io''\<rparr>,
      idToken = ''tok'', random = (\<lambda>k. k mod 36), toUpperCase = upperCaseAscii\<rparr>"

definition world_one :: world where
  "world_one = \<lparr>users = [(''u1'', \<lparr>email = ''a@x.io'', balance = 0, inviteCode = ''MPAAAAAA'',
       invitedBy = Null, totalEarned = 0, totalWithdrawn = 0, role = ''user'',
       createdAt = ServerTimestamp\<rparr>)],
     invites = [], accounts = [(''u1'', ''a@x.io'')], currentUser = None, calls = [],
     draws = 0, token = None, user = None\<rparr>"

text \<open>
  A vendor that rejects every call with the given error code, and a login page whose form
  is filled in.
\<close>

definition env_rejecting :: "string \<Rightarrow> env" where
  "env_rejecting cd = \<lparr>fault = (\<lambda>n. Some (cd, ''Firebase: Error ('' @ cd @ '').'')),
     credential = \<lparr>uid = ''u1'', cred_email = Some ''a@x.io''\<rparr>, idToken = ''tok'',
     random = (\<lambda>k. 0), toUpperCase = upperCaseAscii\<rparr>"

definition page_filled :: login_page where
  "page_filled = \<lparr>page_email = ''a@x.io'', page_password = ''secret'', page_error = [],
     loading = False, toasts = [], navigations = []\<rparr>"

text \<open>
  A response of the statistics endpoint with the two numbers the home page renders, the
  home page before the first response, and a state with a token.
\<close>

record today_stats =
  todayEarnings :: int
  newInvites :: int

definition world_signed_in :: world where
  "world_signed_in = world_one\<lparr>token := Some ''tok''\<rparr>"

definition response_ok :: "today_stats response" where
  "response_ok = \<lparr>ok = True, resp_status = 200, contentType = Some ''application/json'',
     json = Inr \<lparr>todayEarnings = 5, newInvites = 2\<rparr>\<rparr>"

definition home_initial :: "today_stats home_page" where
  "home_initial = \<lparr>stats = \<lparr>todayEarnings = 0, newInvites = 0\<rparr>, loadingStats = False\<rparr>"

section \<open>Awaited calls: basic facts\<close>

declare generateInviteCode_loop.simps [simp del]
declare generateUniqueInviteCode_loop.simps [simp del]

lemma bind_Inr_iff:
  "bind m f w = (Inr y, w'') \<longleftrightarrow> (\<exists>x w'. m w = (Inr x, w') \<and> f x w' = (Inr y, w''))"
  by (auto simp: bind_def split: prod.splits sum.splits)

lemma sdk_iff:
  "sdk e c w = (r, w') \<longleftrightarrow>
     w' = w\<lparr>calls := calls w @ [c]\<rparr> \<and>
     r = (case fault e (length (calls w)) of None \<Rightarrow> Inr () | Some (cd, msg) \<Rightarrow> Inl (FirebaseError cd msg))"
  by (auto simp: sdk_def Let_def split: option.splits)

lemma generateInviteCode_loop_eq:
  "i \<le> 6 \<Longrightarrow> generateInviteCode_loop e i cod w =
     (cod @ concat (map (\<lambda>k. charAt chars (random e (draws w + k))) [0..<6 - i]),
      w\<lparr>draws := draws w + (6 - i)\<rparr>)"
proof (induction e i cod w rule: generateInviteCode_loop.induct)
  case (1 e i cod w)
  show ?case
  proof (cases "i < 6")
    case True
    have upt: "[0..<Suc n] = 0 # map Suc [0..<n]" for n
      by (metis upt_conv_Cons map_Suc_upt zero_less_Suc)
    from True have "6 - i = Suc (6 - (i + 1))" by simp
    then have "[0..<6 - i] = 0 # map Suc [0..<6 - (i + 1)]"
      by (simp only: upt)
    with True "1.IH" show ?thesis
      by (subst generateInviteCode_loop.simps) (simp add: comp_def)
  next
    case False
    with "1.prems" show ?thesis
      by (subst generateInviteCode_loop.simps) simp
  qed
qed

lemma generateInviteCode_eq:
  "generateInviteCode e w =
     (''MP'' @ concat (map (\<lambda>k. charAt chars (random e (draws w + k))) [0..<6]),
      w\<lparr>draws := draws w + 6\<rparr>)"
  by (simp add: generateInviteCode_def generateInviteCode_loop_eq)

lemma checkInviteCodeExists_iff:
  "checkInviteCodeExists e cod w = (r, w') \<longleftrightarrow>
     w' = w\<lparr>calls := calls w @ [GetDocs ''users'' ''inviteCode'' cod]\<rparr> \<and>
     r = (case fault e (length (calls w)) of
            None \<Rightarrow> Inr (cod \<in> inviteCodes w)
          | Some (cd, msg) \<Rightarrow> Inl (FirebaseError cd msg))"
  by (auto simp: checkInviteCodeExists_def getDocs_inviteCode_def bind_def return_def sdk_def
        Let_def inviteCodes_def filter_empty_conv split: option.splits)


lemma inviteCodes_frame [simp]:
  "inviteCodes (w\<lparr>calls := cs\<rparr>) = inviteCodes w"
  "inviteCodes (w\<lparr>draws := n\<rparr>) = inviteCodes w"
  by (simp_all add: inviteCodes_def)

lemma generateUniqueInviteCode_loop_spec:
  assumes "generateUniqueInviteCode_loop e cod attempts w = (r, w')" and "attempts \<le> 10"
  shows "\<exists>cs. w' = w\<lparr>calls := calls w @ cs, draws := draws w + 6 * (length cs - 1)\<rparr> \<and>
           1 \<le> length cs \<and> length cs \<le> 11 - attempts \<and>
           (\<forall>x\<in>set cs. isCheck x) \<and>
           (\<forall>c. r = Inr c \<longrightarrow>
              (c = cod \<or> (\<exists>w1. c = fst (generateInviteCode e w1))) \<and>
              (c \<notin> inviteCodes w \<or>
               (length cs = 11 - attempts \<and>
                (\<forall>x\<in>set cs. \<exists>v\<in>inviteCodes w. x = GetDocs ''users'' ''inviteCode'' v)))) \<and>
           (\<forall>err. r = Inl err \<longrightarrow>
              (\<exists>n cd msg. length (calls w) \<le> n \<and> fault e n = Some (cd, msg) \<and>
                 err = FirebaseError cd msg))"
  using assms
proof (induction e cod attempts w arbitrary: r w' rule: generateUniqueInviteCode_loop.induct)
  case (1 e cod attempts w)
  let ?c = "GetDocs ''users'' ''inviteCode'' cod"
  let ?w1 = "w\<lparr>calls := calls w @ [?c]\<rparr>"
  have chk: "isCheck ?c" by (simp add: isCheck_def)
  show ?case
  proof (cases "fault e (length (calls w))")
    case (Some p)
    obtain cd msg where p: "p = (cd, msg)" by (cases p)
    have "checkInviteCodeExists e cod w = (Inl (FirebaseError cd msg), ?w1)"
      using Some p by (simp add: checkInviteCodeExists_iff)
    with "1.prems" have "r = Inl (FirebaseError cd msg)" "w' = ?w1"
      by (simp_all add: generateUniqueInviteCode_loop.simps)
    with Some p chk "1.prems"(2) show ?thesis
      by (intro exI [of _ "[?c]"]) auto
  next
    case None
    then have c1: "checkInviteCodeExists e cod w = (Inr (cod \<in> inviteCodes w), ?w1)"
      by (simp add: checkInviteCodeExists_iff)
    show ?thesis
    proof (cases "cod \<in> inviteCodes w \<and> attempts < 10")
      case False
      with c1 "1.prems" have res: "r = Inr cod" "w' = ?w1"
        by (simp_all add: generateUniqueInviteCode_loop.simps)
      from False "1.prems"(2) have "cod \<notin> inviteCodes w \<or> attempts = 10" by auto
      with res chk "1.prems"(2) show ?thesis
        by (intro exI [of _ "[?c]"]) auto
    next
      case True
      define cod' where "cod' = fst (generateInviteCode e ?w1)"
      define w2 where "w2 = snd (generateInviteCode e ?w1)"
      have g: "generateInviteCode e ?w1 = (cod', w2)" by (simp add: cod'_def w2_def)
      have w2: "w2 = ?w1\<lparr>draws := draws w + 6\<rparr>"
        by (simp add: w2_def generateInviteCode_eq)
      from c1 True g "1.prems"(1)
      have rec: "generateUniqueInviteCode_loop e cod' (attempts + 1) w2 = (r, w')"
        by (simp add: generateUniqueInviteCode_loop.simps)
      from True have "attempts + 1 \<le> 10" by simp
      from "1.IH" [OF c1 [symmetric] refl True g [symmetric] rec this]
      obtain cs where cs: "w' = w2\<lparr>calls := calls w2 @ cs, draws := draws w2 + 6 * (length cs - 1)\<rparr>"
        "1 \<le> length cs" "length cs \<le> 11 - (attempts + 1)" "\<forall>x\<in>set cs. isCheck x"
        "\<forall>c. r = Inr c \<longrightarrow>
              (c = cod' \<or> (\<exists>w1. c = fst (generateInviteCode e w1))) \<and>
              (c \<notin> inviteCodes w2 \<or>
               (length cs = 11 - (attempts + 1) \<and>
                (\<forall>x\<in>set cs. \<exists>v\<in>inviteCodes w2. x = GetDocs ''users'' ''inviteCode'' v)))"
        "\<forall>err. r = Inl err \<longrightarrow>
              (\<exists>n cd msg. length (calls w2) \<le> n \<and> fault e n = Some (cd, msg) \<and>
                 err = FirebaseError cd msg)"
        by blast
      have iw2: "inviteCodes w2 = inviteCodes w" by (simp add: w2)
      have "w' = w\<lparr>calls := calls w @ (?c # cs), draws := draws w + 6 * (length (?c # cs) - 1)\<rparr>"
        using cs(1,2) by (simp add: w2)
      moreover have "1 \<le> length (?c # cs)" by simp
      moreover from True have "attempts < 10" by simp
      with cs(3) have "length (?c # cs) \<le> 11 - attempts" by simp
      moreover have "\<forall>x\<in>set (?c # cs). isCheck x" using cs(4) chk by simp
      moreover have "\<forall>c. r = Inr c \<longrightarrow>
              (c = cod \<or> (\<exists>w1. c = fst (generateInviteCode e w1))) \<and>
              (c \<notin> inviteCodes w \<or>
               (length (?c # cs) = 11 - attempts \<and>
                (\<forall>x\<in>set (?c # cs). \<exists>v\<in>inviteCodes w. x = GetDocs ''users'' ''inviteCode'' v)))"
        using cs(5) True iw2 cod'_def by auto
      moreover have "\<forall>err. r = Inl err \<longrightarrow>
              (\<exists>n cd msg. length (calls w) \<le> n \<and> fault e n = Some (cd, msg) \<and>
                 err = FirebaseError cd msg)"
        using cs(6) by (auto simp: w2) (metis Suc_leD)
      ultimately show ?thesis by blast
    qed
  qed
qed

lemma generateUniqueInviteCode_spec:
  assumes "generateUniqueInviteCode e w = (r, w')"
  shows "\<exists>cs. w' = w\<lparr>calls := calls w @ cs, draws := draws w + 6 * length cs\<rparr> \<and>
           1 \<le> length cs \<and> length cs \<le> 11 \<and>
           (\<forall>x\<in>set cs. isCheck x) \<and>
           (\<forall>c. r = Inr c \<longrightarrow>
              (\<exists>w1. c = fst (generateInviteCode e w1)) \<and>
              (c \<notin> inviteCodes w \<or>
               (length cs = 11 \<and>
                (\<forall>x\<in>set cs. \<exists>v\<in>inviteCodes w. x = GetDocs ''users'' ''inviteCode'' v)))) \<and>
           (\<forall>err. r = Inl err \<longrightarrow>
              (\<exists>n cd msg. length (calls w) \<le> n \<and> fault e n = Some (cd, msg) \<and>
                 err = FirebaseError cd msg))"
proof -
  define cod where "cod = fst (generateInviteCode e w)"
  let ?w1 = "w\<lparr>draws := draws w + 6\<rparr>"
  have g: "generateInviteCode e w = (cod, ?w1)"
    by (simp add: cod_def generateInviteCode_eq)
  with assms have "generateUniqueInviteCode_loop e cod 0 ?w1 = (r, w')"
    by (simp add: generateUniqueInviteCode_def)
  from generateUniqueInviteCode_loop_spec [OF this]
  obtain cs where cs: "w' = ?w1\<lparr>calls := calls ?w1 @ cs, draws := draws ?w1 + 6 * (length cs - 1)\<rparr>"
        "1 \<le> length cs" "length cs \<le> 11 - 0" "\<forall>x\<in>set cs. isCheck x"
        "\<forall>c. r = Inr c \<longrightarrow>
              (c = cod \<or> (\<exists>w1. c = fst (generateInviteCode e w1))) \<and>
              (c \<notin> inviteCodes ?w1 \<or>
               (length cs = 11 - 0 \<and>
                (\<forall>x\<in>set cs. \<exists>v\<in>inviteCodes ?w1. x = GetDocs ''users'' ''inviteCode'' v)))"
        "\<forall>err. r = Inl err \<longrightarrow>
              (\<exists>n cd msg. length (calls ?w1) \<le> n \<and> fault e n = Some (cd, msg) \<and>
                 err = FirebaseError cd msg)"
    by auto
  from cs(2) have "6 + 6 * (length cs - 1) = 6 * length cs" by (cases cs) simp_all
  with cs(1) have "w' = w\<lparr>calls := calls w @ cs, draws := draws w + 6 * length cs\<rparr>"
    by (simp add: add.assoc)
  moreover have "\<forall>c. r = Inr c \<longrightarrow> (\<exists>w1. c = fst (generateInviteCode e w1))"
    using cs(5) cod_def by auto
  ultimately show ?thesis using cs(2-6) by (intro exI [of _ cs]) simp
qed

lemma generateUniqueInviteCode_loop_last:
  assumes "generateUniqueInviteCode_loop e cod attempts w = (Inr c, w')"
  shows "\<exists>cs. calls w' = calls w @ cs @ [GetDocs ''users'' ''inviteCode'' c]"
  using assms
proof (induction e cod attempts w arbitrary: w' rule: generateUniqueInviteCode_loop.induct)
  case (1 e cod attempts w)
  let ?c = "GetDocs ''users'' ''inviteCode'' cod"
  let ?w1 = "w\<lparr>calls := calls w @ [?c]\<rparr>"
  show ?case
  proof (cases "fault e (length (calls w))")
    case (Some p)
    obtain cd msg where p: "p = (cd, msg)" by (cases p)
    have "checkInviteCodeExists e cod w = (Inl (FirebaseError cd msg), ?w1)"
      using Some p by (simp add: checkInviteCodeExists_iff)
    with "1.prems" show ?thesis
      by (simp add: generateUniqueInviteCode_loop.simps)
  next
    case None
    then have c1: "checkInviteCodeExists e cod w = (Inr (cod \<in> inviteCodes w), ?w1)"
      by (simp add: checkInviteCodeExists_iff)
    show ?thesis
    proof (cases "cod \<in> inviteCodes w \<and> attempts < 10")
      case False
      with c1 "1.prems" have "c = cod" "w' = ?w1"
        by (auto simp: generateUniqueInviteCode_loop.simps)
      then show ?thesis by (intro exI [of _ "[]"]) simp
    next
      case True
      define cod' where "cod' = fst (generateInviteCode e ?w1)"
      define w2 where "w2 = snd (generateInviteCode e ?w1)"
      have g: "generateInviteCode e ?w1 = (cod', w2)" by (simp add: cod'_def w2_def)
      have w2: "w2 = ?w1\<lparr>draws := draws w + 6\<rparr>"
        by (simp add: w2_def generateInviteCode_eq)
      from c1 True g "1.prems"
      have rec: "generateUniqueInviteCode_loop e cod' (attempts + 1) w2 = (Inr c, w')"
        by (simp add: generateUniqueInviteCode_loop.simps)
      from "1.IH" [OF c1 [symmetric] refl True g [symmetric] rec]
      obtain cs where "calls w' = calls w2 @ cs @ [GetDocs ''users'' ''inviteCode'' c]"
        by blast
      then have "calls w' = calls w @ (?c # cs) @ [GetDocs ''users'' ''inviteCode'' c]"
        by (simp add: w2)
      then show ?thesis by blast
    qed
  qed
qed

lemma generateUniqueInviteCode_last:
  assumes "generateUniqueInviteCode e w = (Inr c, w')"
  shows "\<exists>cs. calls w' = calls w @ cs @ [GetDocs ''users'' ''inviteCode'' c]"
proof -
  define cod where "cod = fst (generateInviteCode e w)"
  let ?w1 = "w\<lparr>draws := draws w + 6\<rparr>"
  have "generateInviteCode e w = (cod, ?w1)"
    by (simp add: cod_def generateInviteCode_eq)
  with assms have "generateUniqueInviteCode_loop e cod 0 ?w1 = (Inr c, w')"
    by (simp add: generateUniqueInviteCode_def)
  from generateUniqueInviteCode_loop_last [OF this] show ?thesis by simp
qed

section \<open>Registration: the runs of the try block\<close>

lemma lookupInviter_iff:
  "lookupInviter e ic w = (r, w') \<longleftrightarrow>
     (case ic of
        None \<Rightarrow> r = Inr None \<and> w' = w
      | Some x \<Rightarrow>
          if x = [] then r = Inr None \<and> w' = w
          else w' = w\<lparr>calls := calls w @ [GetDocs ''users'' ''inviteCode'' (toUpperCase e x)]\<rparr> \<and>
               r = (case fault e (length (calls w)) of
                      Some (cd, msg) \<Rightarrow> Inl (FirebaseError cd msg)
                    | None \<Rightarrow>
                        (case filter (\<lambda>d. inviteCode (snd d) = toUpperCase e x) (users w) of
                           [] \<Rightarrow> Inl (Error msg_invalid_invite)
                         | d # ds \<Rightarrow> Inr (Some (fst d)))))"
  by (auto simp: lookupInviter_def getDocs_inviteCode_def bind_def return_def throw_def sdk_def
        Let_def split: option.splits list.splits)

lemma createUserWithEmailAndPassword_iff:
  "createUserWithEmailAndPassword e em pw w = (r, w') \<longleftrightarrow>
     (case fault e (length (calls w)) of
        None \<Rightarrow> r = Inr (credential e) \<and>
          w' = w\<lparr>calls := calls w @ [CreateUserWithEmailAndPassword em pw],
                accounts := accounts w @ [(uid (credential e), em)],
                currentUser := Some (credential e)\<rparr>
      | Some (cd, msg) \<Rightarrow> r = Inl (FirebaseError cd msg) \<and>
          w' = w\<lparr>calls := calls w @ [CreateUserWithEmailAndPassword em pw]\<rparr>)"
  by (auto simp: createUserWithEmailAndPassword_def bind_def sdk_def Let_def split: option.splits)

lemma signInWithEmailAndPassword_iff:
  "signInWithEmailAndPassword e em pw w = (r, w') \<longleftrightarrow>
     (case fault e (length (calls w)) of
        None \<Rightarrow> r = Inr (credential e) \<and>
          w' = w\<lparr>calls := calls w @ [SignInWithEmailAndPassword em pw],
                currentUser := Some (credential e)\<rparr>
      | Some (cd, msg) \<Rightarrow> r = Inl (FirebaseError cd msg) \<and>
          w' = w\<lparr>calls := calls w @ [SignInWithEmailAndPassword em pw]\<rparr>)"
  by (auto simp: signInWithEmailAndPassword_def bind_def sdk_def Let_def split: option.splits)

lemma getIdToken_iff:
  "getIdToken e b w = (r, w') \<longleftrightarrow>
     w' = w\<lparr>calls := calls w @ [GetIdToken b]\<rparr> \<and>
     r = (case fault e (length (calls w)) of
            None \<Rightarrow> Inr (idToken e) | Some (cd, msg) \<Rightarrow> Inl (FirebaseError cd msg))"
  by (auto simp: getIdToken_def bind_def return_def sdk_def Let_def split: option.splits)

lemma setDoc_users_iff:
  "setDoc_users e k v w = (r, w') \<longleftrightarrow>
     (case fault e (length (calls w)) of
        None \<Rightarrow> r = Inr () \<and>
          w' = w\<lparr>calls := calls w @ [SetDoc ''users'' k], users := upsert k v (users w)\<rparr>
      | Some (cd, msg) \<Rightarrow> r = Inl (FirebaseError cd msg) \<and>
          w' = w\<lparr>calls := calls w @ [SetDoc ''users'' k]\<rparr>)"
  by (auto simp: setDoc_users_def bind_def modify_def sdk_def Let_def split: option.splits)

lemma addDoc_invites_iff:
  "addDoc_invites e v w = (r, w') \<longleftrightarrow>
     (case fault e (length (calls w)) of
        None \<Rightarrow> r = Inr () \<and>
          w' = w\<lparr>calls := calls w @ [AddDoc ''invites''], invites := invites w @ [v]\<rparr>
      | Some (cd, msg) \<Rightarrow> r = Inl (FirebaseError cd msg) \<and>
          w' = w\<lparr>calls := calls w @ [AddDoc ''invites'']\<rparr>)"
  by (auto simp: addDoc_invites_def bind_def modify_def sdk_def Let_def split: option.splits)

lemma getDoc_users_iff:
  "getDoc_users e k w = (r, w') \<longleftrightarrow>
     w' = w\<lparr>calls := calls w @ [GetDoc ''users'' k]\<rparr> \<and>
     r = (case fault e (length (calls w)) of
            None \<Rightarrow> Inr (map_of (users w) k) | Some (cd, msg) \<Rightarrow> Inl (FirebaseError cd msg))"
  by (auto simp: getDoc_users_def bind_def sdk_def Let_def split: option.splits)

lemma bind_cases:
  assumes "bind m f w = (r, w'')"
  obtains (throws) err where "m w = (Inl err, w'')" "r = Inl err"
        | (continues) x w' where "m w = (Inr x, w')" "f x w' = (r, w'')"
  using assms by (auto simp: bind_def split: prod.splits sum.splits)


lemma modify_iff: "modify f w = (r, w') \<longleftrightarrow> r = Inr () \<and> w' = f w"
  by (auto simp: modify_def)

lemma return_iff: "return x w = (r, w') \<longleftrightarrow> r = Inr x \<and> w' = w"
  by (auto simp: return_def)

lemma register_try_success:
  assumes run: "register_try e em pw ic w = (Inr u, w')"
  shows "\<exists>inviter lk c cs wg wg'.
     lookupInviter e ic w = (Inr inviter, w\<lparr>calls := calls w @ lk\<rparr>) \<and>
     generateUniqueInviteCode e wg = (Inr c, wg') \<and> users wg = users w \<and>
     calls wg' = calls wg @ cs \<and> (\<forall>x\<in>set cs. isCheck x) \<and>
     users w' = upsert (uid (credential e))
        \<lparr>email = em, balance = 0, inviteCode = c, invitedBy = or_null inviter,
         totalEarned = 0, totalWithdrawn = 0, role = ''user'', createdAt = ServerTimestamp\<rparr>
        (users w) \<and>
     invites w' = invites w @
        (case or_null inviter of
           Null \<Rightarrow> []
         | Value i \<Rightarrow> [\<lparr>inviterId = i, invitedId = uid (credential e), level = 1,
                       status = ''pending'', invite_createdAt = ServerTimestamp\<rparr>]) \<and>
     accounts w' = accounts w @ [(uid (credential e), em)] \<and>
     calls w' = calls w @ lk @
        [CreateUserWithEmailAndPassword em pw, GetIdToken False] @ cs @
        [SetDoc ''users'' (uid (credential e))] @
        (case or_null inviter of Null \<Rightarrow> [] | Value i \<Rightarrow> [AddDoc ''invites''])"
proof -
  from run obtain inviter w1 cred w2 tok w3 u4 w4 c w5 u6 w6 where
    s1: "lookupInviter e ic w = (Inr inviter, w1)" and
    s2: "createUserWithEmailAndPassword e em pw w1 = (Inr cred, w2)" and
    s3: "getIdToken e False w2 = (Inr tok, w3)" and
    s4: "modify (\<lambda>w. w\<lparr>token := Some tok\<rparr>) w3 = (Inr u4, w4)" and
    s5: "generateUniqueInviteCode e w4 = (Inr c, w5)" and
    s6: "setDoc_users e (uid cred)
           \<lparr>email = em, balance = 0, inviteCode = c, invitedBy = or_null inviter,
            totalEarned = 0, totalWithdrawn = 0, role = ''user'', createdAt = ServerTimestamp\<rparr>
           w5 = (Inr u6, w6)" and
    s7: "(case inviter of
            None \<Rightarrow> return ()
          | Some i \<Rightarrow>
              if i = [] then return ()
              else addDoc_invites e
                     \<lparr>inviterId = i, invitedId = uid cred, level = 1,
                      status = ''pending'', invite_createdAt = ServerTimestamp\<rparr>) w6 = (Inr u, w')"
    unfolding register_try_def bind_Inr_iff by blast
  from s1 obtain lk where w1: "w1 = w\<lparr>calls := calls w @ lk\<rparr>"
    by (cases ic) (auto simp: lookupInviter_iff split: if_splits intro: that [of "[]"])
  from s2 have cred: "cred = credential e" and
    w2: "w2 = w1\<lparr>calls := calls w1 @ [CreateUserWithEmailAndPassword em pw],
                accounts := accounts w1 @ [(uid (credential e), em)],
                currentUser := Some (credential e)\<rparr>"
    by (auto simp: createUserWithEmailAndPassword_iff split: option.splits)
  from s3 have w3: "w3 = w2\<lparr>calls := calls w2 @ [GetIdToken False]\<rparr>"
    by (simp add: getIdToken_iff)
  from s4 have w4: "w4 = w3\<lparr>token := Some tok\<rparr>"
    by (simp add: modify_iff)
  from generateUniqueInviteCode_spec [OF s5] obtain cs where
    w5: "w5 = w4\<lparr>calls := calls w4 @ cs, draws := draws w4 + 6 * length cs\<rparr>" and
    cs: "\<forall>x\<in>set cs. isCheck x"
    by blast
  from s6 have w6: "w6 = w5\<lparr>calls := calls w5 @ [SetDoc ''users'' (uid cred)],
      users := upsert (uid cred)
        \<lparr>email = em, balance = 0, inviteCode = c, invitedBy = or_null inviter,
         totalEarned = 0, totalWithdrawn = 0, role = ''user'', createdAt = ServerTimestamp\<rparr>
        (users w5)\<rparr>"
    by (auto simp: setDoc_users_iff split: option.splits)
  from s7 have w7: "w' = (case or_null inviter of
       Null \<Rightarrow> w6
     | Value i \<Rightarrow> w6\<lparr>calls := calls w6 @ [AddDoc ''invites''],
                    invites := invites w6 @ [\<lparr>inviterId = i, invitedId = uid cred, level = 1,
                      status = ''pending'', invite_createdAt = ServerTimestamp\<rparr>]\<rparr>)"
    by (auto simp: or_null_def return_iff addDoc_invites_iff split: option.splits if_splits)
  have "users w4 = users w" by (simp add: w4 w3 w2 w1)
  moreover have "users w' = upsert (uid (credential e))
        \<lparr>email = em, balance = 0, inviteCode = c, invitedBy = or_null inviter,
         totalEarned = 0, totalWithdrawn = 0, role = ''user'', createdAt = ServerTimestamp\<rparr>
        (users w)"
    by (simp add: w7 w6 w5 w4 w3 w2 w1 cred split: nullable.splits)
  moreover have "invites w' = invites w @
        (case or_null inviter of
           Null \<Rightarrow> []
         | Value i \<Rightarrow> [\<lparr>inviterId = i, invitedId = uid (credential e), level = 1,
                       status = ''pending'', invite_createdAt = ServerTimestamp\<rparr>])"
    by (simp add: w7 w6 w5 w4 w3 w2 w1 cred split: nullable.splits)
  moreover have "accounts w' = accounts w @ [(uid (credential e), em)]"
    by (simp add: w7 w6 w5 w4 w3 w2 w1 cred split: nullable.splits)
  moreover have "calls w' = calls w @ lk @
        [CreateUserWithEmailAndPassword em pw, GetIdToken False] @ cs @
        [SetDoc ''users'' (uid (credential e))] @
        (case or_null inviter of Null \<Rightarrow> [] | Value i \<Rightarrow> [AddDoc ''invites''])"
    by (simp add: w7 w6 w5 w4 w3 w2 w1 cred split: nullable.splits)
  moreover have "calls w5 = calls w4 @ cs" by (simp add: w5)
  ultimately show ?thesis using s1 s5 cs unfolding w1 by blast
qed


lemma generateUniqueInviteCode_frame:
  assumes "generateUniqueInviteCode e w = (r, w')"
  shows "\<exists>cs n. w' = w\<lparr>calls := calls w @ cs, draws := n\<rparr> \<and> (\<forall>x\<in>set cs. isCheck x)"
  using generateUniqueInviteCode_spec [OF assms] by blast

lemma isCheck_viaSdk: "isCheck x \<Longrightarrow> viaSdk x"
  by (cases x) (simp_all add: isCheck_def)


lemma lookupInviter_users: "lookupInviter e ic w = (r, w') \<Longrightarrow> users w' = users w"
  by (auto simp: lookupInviter_iff split: option.splits if_splits)

lemma createUserWithEmailAndPassword_users:
  "createUserWithEmailAndPassword e em pw w = (r, w') \<Longrightarrow> users w' = users w"
  by (auto simp: createUserWithEmailAndPassword_iff split: option.splits)

lemma getIdToken_users: "getIdToken e b w = (r, w') \<Longrightarrow> users w' = users w"
  by (auto simp: getIdToken_iff)

lemma generateUniqueInviteCode_users:
  "generateUniqueInviteCode e w = (r, w') \<Longrightarrow> users w' = users w"
  by (auto dest!: generateUniqueInviteCode_frame)

lemma setDoc_users_users:
  "setDoc_users e k v w = (r, w') \<Longrightarrow> users w' = users w \<or> users w' = upsert k v (users w)"
  by (auto simp: setDoc_users_iff split: option.splits)

lemma addDoc_invites_users: "addDoc_invites e v w = (r, w') \<Longrightarrow> users w' = users w"
  by (auto simp: addDoc_invites_iff split: option.splits)

lemma register_try_users:
  assumes "register_try e em pw ic w = (r, w')"
  shows "users w' = users w \<or>
     (\<exists>c inviter. users w' = upsert (uid (credential e))
        \<lparr>email = em, balance = 0, inviteCode = c, invitedBy = inviter,
         totalEarned = 0, totalWithdrawn = 0, role = ''user'', createdAt = ServerTimestamp\<rparr>
        (users w))"
  using assms unfolding register_try_def
proof (elim bind_cases, goal_cases)
  case (1 err)
  then show ?case by (auto dest!: lookupInviter_users)
next
  case (2 inviter w1 err)
  then show ?case
    by (auto dest!: lookupInviter_users createUserWithEmailAndPassword_users)
next
  case (3 inviter w1 cred w2 err)
  then show ?case
    by (auto dest!: lookupInviter_users createUserWithEmailAndPassword_users getIdToken_users)
next
  case (4 inviter w1 cred w2 tok w3 err)
  then show ?case by (simp add: modify_iff)
next
  case (5 inviter w1 cred w2 tok w3 u w4 err)
  then show ?case
    by (auto simp: modify_iff dest!: lookupInviter_users createUserWithEmailAndPassword_users
        getIdToken_users generateUniqueInviteCode_users)
next
  case (6 inviter w1 cred w2 tok w3 u w4 c w5 err)
  then have "users w5 = users w"
    by (auto simp: modify_iff dest!: lookupInviter_users createUserWithEmailAndPassword_users
        getIdToken_users generateUniqueInviteCode_users)
  moreover from 6 have "cred = credential e"
    by (auto simp: createUserWithEmailAndPassword_iff split: option.splits)
  ultimately have "users w' = users w \<or> users w' = upsert (uid (credential e))
        \<lparr>email = em, balance = 0, inviteCode = c, invitedBy = or_null inviter,
         totalEarned = 0, totalWithdrawn = 0, role = ''user'', createdAt = ServerTimestamp\<rparr>
        (users w)"
    using setDoc_users_users [OF 6(6)] by simp
  then show ?case by blast
next
  case (7 inviter w1 cred w2 tok w3 u w4 c w5 u' w6)
  then have "users w5 = users w"
    by (auto simp: modify_iff dest!: lookupInviter_users createUserWithEmailAndPassword_users
        getIdToken_users generateUniqueInviteCode_users)
  moreover from 7 have "cred = credential e"
    by (auto simp: createUserWithEmailAndPassword_iff split: option.splits)
  moreover from 7(7) have "users w' = users w6"
    by (auto simp: return_iff dest!: addDoc_invites_users split: option.splits if_splits)
  ultimately have "users w' = users w \<or> users w' = upsert (uid (credential e))
        \<lparr>email = em, balance = 0, inviteCode = c, invitedBy = or_null inviter,
         totalEarned = 0, totalWithdrawn = 0, role = ''user'', createdAt = ServerTimestamp\<rparr>
        (users w)"
    using setDoc_users_users [OF 7(6)] by simp
  then show ?case by blast
qed

lemma chars_alnum: "list_all isUpperOrDigit chars"
  by code_simp

lemma chars_length: "length chars = 36"
  by (simp add: chars_def)

lemma generateInviteCode_wellFormed:
  assumes "\<forall>k. random e k < 36"
  shows "wellFormedInviteCode (fst (generateInviteCode e w))"
proof -
  have one: "charAt chars (random e k) = [chars ! random e k]" for k
    using assms by (simp add: charAt_def chars_length)
  have ok: "isUpperOrDigit (chars ! random e k)" for k
    using assms chars_alnum by (simp add: list_all_length chars_length)
  have "fst (generateInviteCode e w) = ''MP'' @ map (\<lambda>k. chars ! random e (draws w + k)) [0..<6]"
    by (simp add: generateInviteCode_eq one concat_map_singleton del: upt_Suc)
  then show ?thesis
    using ok by (simp add: wellFormedInviteCode_def list_all_iff del: upt_Suc)
qed

lemma map_of_upsert: "map_of (upsert k v ps) k = Some v"
  by (induction ps) auto

lemma try_catch_Inr_iff: "try_catch m h w = (Inr x, w') \<longleftrightarrow> m w = (Inr x, w')"
  by (auto simp: try_catch_def split: prod.splits sum.splits)

lemma register_Inr_iff:
  "register e em pw ic w = (Inr u, w') \<longleftrightarrow> register_try e em pw ic w = (Inr u, w')"
  by (simp add: register_def try_catch_Inr_iff)

lemma successful_lookup:
  assumes "lookupInviter e ic w = (Inr inviter, wl)" and "\<forall>d\<in>set (users w). fst d \<noteq> []"
  shows "case ic of
           None \<Rightarrow> or_null inviter = Null \<and> wl = w
         | Some x \<Rightarrow>
             if x = [] then or_null inviter = Null \<and> wl = w
             else \<exists>m ms. filter (\<lambda>d. inviteCode (snd d) = toUpperCase e x) (users w) = m # ms \<and>
                    or_null inviter = Value (fst m) \<and>
                    wl = w\<lparr>calls := calls w @ [GetDocs ''users'' ''inviteCode'' (toUpperCase e x)]\<rparr>"
proof (cases ic)
  case None
  with assms(1) show ?thesis by (simp add: lookupInviter_iff or_null_def)
next
  case (Some x)
  show ?thesis
  proof (cases "x = []")
    case True
    with Some assms(1) show ?thesis by (simp add: lookupInviter_iff or_null_def)
  next
    case False
    with Some assms(1) obtain m ms where
      f: "filter (\<lambda>d. inviteCode (snd d) = toUpperCase e x) (users w) = m # ms" and
      i: "inviter = Some (fst m)" and
      wl: "wl = w\<lparr>calls := calls w @ [GetDocs ''users'' ''inviteCode'' (toUpperCase e x)]\<rparr>"
      by (auto simp: lookupInviter_iff split: option.splits list.splits)
    from f have "m \<in> set (filter (\<lambda>d. inviteCode (snd d) = toUpperCase e x) (users w))" by simp
    then have "m \<in> set (users w)" by simp
    with assms(2) have "fst m \<noteq> []" by blast
    with i have "or_null inviter = Value (fst m)" by (simp add: or_null_def)
    with Some False f wl show ?thesis by simp
  qed
qed

lemma try_catch_world: "try_catch m h w = (r, w') \<Longrightarrow> \<exists>r0. m w = (r0, w')"
  by (auto simp: try_catch_def split: prod.splits sum.splits)

lemma register_try_error:
  assumes "register_try e em pw ic w = (Inl err, w')"
  shows "(err = Error msg_invalid_invite \<and> (\<exists>x. ic = Some x \<and> x \<noteq> [] \<and> toUpperCase e x \<notin> inviteCodes w)) \<or>
         (\<exists>n cd msg. length (calls w) \<le> n \<and> fault e n = Some (cd, msg) \<and> err = FirebaseError cd msg)"
  using assms unfolding register_try_def
proof (elim bind_cases, goal_cases)
  case (1 err')
  then show ?case
    by (auto simp: lookupInviter_iff inviteCodes_def filter_empty_conv
        split: option.splits if_splits list.splits)
next
  case (2 inviter w1 err')
  then have "length (calls w) \<le> length (calls w1)"
    by (auto simp: lookupInviter_iff split: option.splits if_splits)
  with 2 show ?case
    by (auto simp: createUserWithEmailAndPassword_iff split: option.splits)
next
  case (3 inviter w1 cred w2 err')
  then have "length (calls w) \<le> length (calls w2)"
    by (auto simp: lookupInviter_iff createUserWithEmailAndPassword_iff split: option.splits if_splits)
  with 3 show ?case
    by (auto simp: getIdToken_iff split: option.splits)
next
  case (4 inviter w1 cred w2 tok w3 err')
  then show ?case by (simp add: modify_iff)
next
  case (5 inviter w1 cred w2 tok w3 u w4 err')
  then have "length (calls w) \<le> length (calls w4)"
    by (auto simp: lookupInviter_iff createUserWithEmailAndPassword_iff getIdToken_iff modify_iff
        split: option.splits if_splits)
  moreover from 5 generateUniqueInviteCode_spec [OF 5(5)]
  obtain n cd msg where "length (calls w4) \<le> n" "fault e n = Some (cd, msg)"
    "err' = FirebaseError cd msg"
    by auto
  ultimately show ?case using 5 by (auto intro: le_trans)
next
  case (6 inviter w1 cred w2 tok w3 u w4 c w5 err')
  then have "length (calls w) \<le> length (calls w4)"
    by (auto simp: lookupInviter_iff createUserWithEmailAndPassword_iff getIdToken_iff modify_iff
        split: option.splits if_splits)
  moreover from generateUniqueInviteCode_frame [OF 6(5)] have "length (calls w4) \<le> length (calls w5)"
    by auto
  ultimately have "length (calls w) \<le> length (calls w5)" by simp
  with 6 show ?case
    by (auto simp: setDoc_users_iff split: option.splits)
next
  case (7 inviter w1 cred w2 tok w3 u w4 c w5 u' w6)
  then have "length (calls w) \<le> length (calls w4)"
    by (auto simp: lookupInviter_iff createUserWithEmailAndPassword_iff getIdToken_iff modify_iff
        split: option.splits if_splits)
  moreover from generateUniqueInviteCode_frame [OF 7(5)] have "length (calls w4) \<le> length (calls w5)"
    by auto
  moreover from 7(6) have "length (calls w5) \<le> length (calls w6)"
    by (auto simp: setDoc_users_iff split: option.splits)
  ultimately have "length (calls w) \<le> length (calls w6)" by simp
  with 7(7) show ?case
    by (auto simp: return_iff addDoc_invites_iff split: option.splits if_splits)
qed

section \<open>Which channel the requests take\<close>

lemma sdk_only_bind:
  assumes "sdk_only m" and "\<And>x. sdk_only (f x)"
  shows "sdk_only (bind m f)"
  unfolding sdk_only_def
proof (intro allI impI)
  fix w r w''
  assume "bind m f w = (r, w'')"
  then show "\<exists>cs. calls w'' = calls w @ cs \<and> list_all viaSdk cs"
  proof (cases rule: bind_cases)
    case (throws err)
    with assms(1) show ?thesis by (simp add: sdk_only_def)
  next
    case (continues x w')
    from assms(1) continues(1) obtain cs where "calls w' = calls w @ cs" "list_all viaSdk cs"
      unfolding sdk_only_def by blast
    moreover from assms(2) continues(2) obtain cs' where "calls w'' = calls w' @ cs'"
      "list_all viaSdk cs'"
      unfolding sdk_only_def by blast
    ultimately show ?thesis by (intro exI [of _ "cs @ cs'"]) simp
  qed
qed

lemma sdk_only_return: "sdk_only (return x)"
  by (simp add: sdk_only_def return_def)

lemma sdk_only_throw: "sdk_only (throw err)"
  by (simp add: sdk_only_def throw_def)

lemma sdk_only_modify: "(\<And>w. calls (f w) = calls w) \<Longrightarrow> sdk_only (modify f)"
  by (simp add: sdk_only_def modify_def)

lemma sdk_only_sdk: "viaSdk c \<Longrightarrow> sdk_only (sdk e c)"
  by (auto simp: sdk_only_def sdk_iff)

lemma sdk_only_try_catch: "sdk_only m \<Longrightarrow> sdk_only (try_catch m h)"
  unfolding sdk_only_def by (blast dest: try_catch_world)

lemma sdk_only_step:
  "viaSdk c \<Longrightarrow> (\<And>w. calls (g w) = calls w) \<Longrightarrow> sdk_only (bind (sdk e c) (\<lambda>_ w. (Inr (h w), g w)))"
  by (auto simp: sdk_only_def bind_def sdk_def Let_def split: option.splits)

lemma sdk_only_getDocs_inviteCode: "sdk_only (getDocs_inviteCode e v)"
  unfolding getDocs_inviteCode_def by (rule sdk_only_step [where g = "\<lambda>w. w"]) simp_all

lemma sdk_only_lookupInviter: "sdk_only (lookupInviter e ic)"
  unfolding lookupInviter_def
  by (auto intro!: sdk_only_bind sdk_only_return sdk_only_throw sdk_only_getDocs_inviteCode
      split: option.splits list.splits)

lemma sdk_only_createUser: "sdk_only (createUserWithEmailAndPassword e em pw)"
  by (auto simp: sdk_only_def createUserWithEmailAndPassword_iff split: option.splits)

lemma sdk_only_signIn: "sdk_only (signInWithEmailAndPassword e em pw)"
  by (auto simp: sdk_only_def signInWithEmailAndPassword_iff split: option.splits)

lemma sdk_only_getIdToken: "sdk_only (getIdToken e b)"
  by (auto simp: sdk_only_def getIdToken_iff)

lemma sdk_only_generateUniqueInviteCode: "sdk_only (generateUniqueInviteCode e)"
  unfolding sdk_only_def
proof (intro allI impI)
  fix w r w'
  assume "generateUniqueInviteCode e w = (r, w')"
  from generateUniqueInviteCode_frame [OF this] obtain cs n where
    "w' = w\<lparr>calls := calls w @ cs, draws := n\<rparr>" "\<forall>x\<in>set cs. isCheck x"
    by blast
  then have "calls w' = calls w @ cs" "list_all viaSdk cs"
    by (simp_all add: list_all_iff isCheck_viaSdk)
  then show "\<exists>cs. calls w' = calls w @ cs \<and> list_all viaSdk cs" by blast
qed

lemma sdk_only_setDoc_users: "sdk_only (setDoc_users e k v)"
  by (auto simp: sdk_only_def setDoc_users_iff split: option.splits)

lemma sdk_only_addDoc_invites: "sdk_only (addDoc_invites e v)"
  by (auto simp: sdk_only_def addDoc_invites_iff split: option.splits)

lemma sdk_only_getDoc_users: "sdk_only (getDoc_users e k)"
  by (auto simp: sdk_only_def getDoc_users_iff)

lemma sdk_only_register: "sdk_only (register e em pw ic)"
  unfolding register_def register_try_def
  by (auto intro!: sdk_only_try_catch sdk_only_bind sdk_only_lookupInviter sdk_only_createUser
      sdk_only_getIdToken sdk_only_modify sdk_only_generateUniqueInviteCode sdk_only_setDoc_users
      sdk_only_addDoc_invites sdk_only_return split: option.splits)

lemma sdk_only_login: "sdk_only (login e em pw)"
  unfolding login_def login_try_def
  by (auto intro!: sdk_only_try_catch sdk_only_bind sdk_only_signIn
      sdk_only_getIdToken sdk_only_modify sdk_only_getDoc_users sdk_only_return
      split: option.splits)

lemma sdk_only_logout: "sdk_only (logout e)"
  unfolding logout_def firebaseSignOut_def
  by (auto intro!: sdk_only_bind sdk_only_sdk sdk_only_modify)

lemma sdk_only_refreshUser: "sdk_only (refreshUser e)"
proof -
  have body: "sdk_only (bind (getIdToken e True) (\<lambda>tok.
          bind (modify (\<lambda>w. w\<lparr>token := Some tok\<rparr>)) (\<lambda>_.
          bind (getDoc_users e (uid cu)) (\<lambda>userDoc.
          (case userDoc of
             None \<Rightarrow> return ()
           | Some d \<Rightarrow> modify (\<lambda>w. w\<lparr>user := Some (uid cu, d)\<rparr>))))))"
    for cu :: credential
    by (auto intro!: sdk_only_bind sdk_only_getIdToken sdk_only_modify sdk_only_getDoc_users
        sdk_only_return split: option.splits)
  show ?thesis
    unfolding sdk_only_def
  proof (intro allI impI)
    fix w r w'
    assume run: "refreshUser e w = (r, w')"
    show "\<exists>cs. calls w' = calls w @ cs \<and> list_all viaSdk cs"
    proof (cases "currentUser w")
      case None
      with run show ?thesis by (simp add: refreshUser_def)
    next
      case (Some cu)
      with run body [of cu] show ?thesis by (simp add: refreshUser_def sdk_only_def)
    qed
  qed
qed

lemma fetchStats_calls:
  "calls (snd (fetchStats outcome (h, w))) =
     (case token w of
        None \<Rightarrow> calls w
      | Some t \<Rightarrow>
          if t = [] then calls w
          else calls w @ [Fetch ''/api/stats/today'' [(''Authorization'', ''Bearer '' @ t)]])"
  by (simp add: fetchStats_def Let_def split: option.splits sum.splits)

lemma fetchStats_stats:
  "stats (fst (fetchStats outcome (h, w))) = stats h \<or>
   (\<exists>resp. outcome = Inr resp \<and> json resp = Inr (stats (fst (fetchStats outcome (h, w)))))"
  by (simp add: fetchStats_def Let_def split: option.splits sum.splits)

lemma bind_calls_after:
  assumes "bind m f w = (r, w')" and "\<And>x. sdk_only (f x)"
  shows "\<exists>cs. calls w' = calls (snd (m w)) @ cs"
  using assms(1)
proof (cases rule: bind_cases)
  case (throws err)
  then show ?thesis by simp
next
  case (continues x w1)
  from assms(2) [of x] continues(2) obtain cs where "calls w' = calls w1 @ cs"
    unfolding sdk_only_def by blast
  with continues(1) show ?thesis by simp
qed

lemma register_try_lookup_first:
  assumes "register_try e em pw (Some x) w = (r, w')" and "x \<noteq> []"
  shows "\<exists>cs. calls w' = calls w @ GetDocs ''users'' ''inviteCode'' (toUpperCase e x) # cs"
proof -
  have "\<exists>cs. calls w' = calls (snd (lookupInviter e (Some x) w)) @ cs"
    using assms(1) unfolding register_try_def
    by (rule bind_calls_after)
      (auto intro!: sdk_only_bind sdk_only_createUser sdk_only_getIdToken sdk_only_modify
        sdk_only_generateUniqueInviteCode sdk_only_setDoc_users sdk_only_addDoc_invites
        sdk_only_return split: option.splits)
  moreover have "snd (lookupInviter e (Some x) w) =
      w\<lparr>calls := calls w @ [GetDocs ''users'' ''inviteCode'' (toUpperCase e x)]\<rparr>"
    using assms(2) lookupInviter_iff [of e "Some x" w "fst (lookupInviter e (Some x) w)"
        "snd (lookupInviter e (Some x) w)"]
    by simp
  ultimately show ?thesis by simp
qed

section \<open>The error mapping of login and register\<close>

text \<open>
  The errors the two try blocks can throw are the vendor's, and for \<open>register\<close> the
  invalid-invite error. So \<open>register\<close> throws its in-use message exactly when a vendor call
  was rejected with code \<open>auth/email-already-in-use\<close>, \<open>login\<close> throws its invalid-login
  message exactly when one was rejected with \<open>auth/invalid-credential\<close> or
  \<open>auth/wrong-password\<close>, and both rethrow every other error as it is. The login page
  receives what \<open>login\<close> throws.
\<close>

lemma login_try_error:
  assumes "login_try e em pw w = (Inl err, w')"
  shows "\<exists>n cd msg. length (calls w) \<le> n \<and> fault e n = Some (cd, msg) \<and> err = FirebaseError cd msg"
  using assms unfolding login_try_def
proof (elim bind_cases, goal_cases)
  case (1 err')
  then show ?case
    by (auto simp: signInWithEmailAndPassword_iff split: option.splits)
next
  case (2 cred w1 err')
  then have "length (calls w) \<le> length (calls w1)"
    by (auto simp: signInWithEmailAndPassword_iff split: option.splits)
  with 2 show ?case
    by (auto simp: getIdToken_iff split: option.splits)
next
  case (3 cred w1 tok w2 err')
  then show ?case by (simp add: modify_iff)
next
  case (4 cred w1 tok w2 u w3 err')
  then have "length (calls w) \<le> length (calls w3)"
    by (auto simp: signInWithEmailAndPassword_iff getIdToken_iff modify_iff split: option.splits)
  with 4 show ?case
    by (auto simp: getDoc_users_iff split: option.splits)
next
  case (5 cred w1 tok w2 u w3 userDoc w4)
  then show ?case
    by (auto simp: return_iff modify_iff split: option.splits)
qed

lemma try_catch_Inl_iff:
  "try_catch m h w = (Inl err, w') \<longleftrightarrow> (\<exists>err0. m w = (Inl err0, w') \<and> err = h err0)"
  by (auto simp: try_catch_def split: prod.splits sum.splits)

lemma messages_differ: "msg_invalid_invite \<noteq> msg_email_in_use"
  by (simp add: msg_invalid_invite_def msg_email_in_use_def)

lemma register_catch_FirebaseError:
  "register_catch (FirebaseError cd msg) =
     (if cd = ''auth/email-already-in-use'' then Error msg_email_in_use else FirebaseError cd msg)"
  by (simp add: register_catch_def)

lemma register_catch_Error: "register_catch (Error m) = Error m"
  by (simp add: register_catch_def)

lemma register_throws_email_in_use_iff:
  "register e em pw ic w = (Inl (Error msg_email_in_use), w') \<longleftrightarrow>
     (\<exists>msg. register_try e em pw ic w = (Inl (FirebaseError ''auth/email-already-in-use'' msg), w'))"
proof
  assume "register e em pw ic w = (Inl (Error msg_email_in_use), w')"
  then obtain err0 where run: "register_try e em pw ic w = (Inl err0, w')"
    and h: "Error msg_email_in_use = register_catch err0"
    unfolding register_def try_catch_Inl_iff by blast
  from register_try_error [OF run]
  show "\<exists>msg. register_try e em pw ic w = (Inl (FirebaseError ''auth/email-already-in-use'' msg), w')"
  proof
    assume "err0 = Error msg_invalid_invite \<and>
      (\<exists>x. ic = Some x \<and> x \<noteq> [] \<and> toUpperCase e x \<notin> inviteCodes w)"
    with h have "msg_email_in_use = msg_invalid_invite" by (simp only: register_catch_Error error.inject)
    with messages_differ show ?thesis by simp
  next
    assume "\<exists>n cd msg. length (calls w) \<le> n \<and> fault e n = Some (cd, msg) \<and> err0 = FirebaseError cd msg"
    then obtain cd msg where err0: "err0 = FirebaseError cd msg" by blast
    have "cd = ''auth/email-already-in-use''"
    proof (rule ccontr)
      assume "cd \<noteq> ''auth/email-already-in-use''"
      with h err0 have "Error msg_email_in_use = FirebaseError cd msg"
        by (simp only: register_catch_FirebaseError if_False)
      then show False by (simp only: error.distinct)
    qed
    with run err0 show ?thesis by blast
  qed
next
  assume "\<exists>msg. register_try e em pw ic w = (Inl (FirebaseError ''auth/email-already-in-use'' msg), w')"
  then obtain msg where
    "register_try e em pw ic w = (Inl (FirebaseError ''auth/email-already-in-use'' msg), w')"
    by blast
  then have "register e em pw ic w =
      (Inl (register_catch (FirebaseError ''auth/email-already-in-use'' msg)), w')"
    unfolding register_def try_catch_Inl_iff by blast
  then show "register e em pw ic w = (Inl (Error msg_email_in_use), w')"
    by (simp add: register_catch_FirebaseError)
qed

lemma register_rethrows_other:
  assumes "register_try e em pw ic w = (Inl err, w')" and "code err \<noteq> Some ''auth/email-already-in-use''"
  shows "register e em pw ic w = (Inl err, w')"
proof -
  from assms(2) have "register_catch err = err" by (simp add: register_catch_def)
  with assms(1) show ?thesis unfolding register_def try_catch_Inl_iff by auto
qed

lemma login_catch_FirebaseError:
  "login_catch (FirebaseError cd msg) =
     (if cd = ''auth/invalid-credential'' \<or> cd = ''auth/wrong-password''
      then Error msg_invalid_login else FirebaseError cd msg)"
  by (simp add: login_catch_def)

lemma login_throws_invalid_iff:
  "login e em pw w = (Inl (Error msg_invalid_login), w') \<longleftrightarrow>
     (\<exists>cd msg. (cd = ''auth/invalid-credential'' \<or> cd = ''auth/wrong-password'') \<and>
        login_try e em pw w = (Inl (FirebaseError cd msg), w'))"
proof
  assume "login e em pw w = (Inl (Error msg_invalid_login), w')"
  then obtain err0 where run: "login_try e em pw w = (Inl err0, w')"
    and h: "Error msg_invalid_login = login_catch err0"
    unfolding login_def try_catch_Inl_iff by blast
  from login_try_error [OF run] obtain cd msg where err0: "err0 = FirebaseError cd msg" by blast
  have "cd = ''auth/invalid-credential'' \<or> cd = ''auth/wrong-password''"
  proof (rule ccontr)
    assume "\<not> (cd = ''auth/invalid-credential'' \<or> cd = ''auth/wrong-password'')"
    with h err0 have "Error msg_invalid_login = FirebaseError cd msg"
      by (simp only: login_catch_FirebaseError if_False)
    then show False by (simp only: error.distinct)
  qed
  with run err0 show "\<exists>cd msg. (cd = ''auth/invalid-credential'' \<or> cd = ''auth/wrong-password'') \<and>
        login_try e em pw w = (Inl (FirebaseError cd msg), w')"
    by blast
next
  assume "\<exists>cd msg. (cd = ''auth/invalid-credential'' \<or> cd = ''auth/wrong-password'') \<and>
        login_try e em pw w = (Inl (FirebaseError cd msg), w')"
  then obtain cd msg where cd: "cd = ''auth/invalid-credential'' \<or> cd = ''auth/wrong-password''"
    and run: "login_try e em pw w = (Inl (FirebaseError cd msg), w')"
    by blast
  from run have "login e em pw w = (Inl (login_catch (FirebaseError cd msg)), w')"
    unfolding login_def try_catch_Inl_iff by blast
  with cd show "login e em pw w = (Inl (Error msg_invalid_login), w')"
    by (simp only: login_catch_FirebaseError if_True)
qed

lemma login_rethrows_other:
  assumes "login_try e em pw w = (Inl err, w')"
    and "code err \<noteq> Some ''auth/invalid-credential''" and "code err \<noteq> Some ''auth/wrong-password''"
  shows "login e em pw w = (Inl err, w')"
proof -
  from assms(2,3) have "login_catch err = err" by (simp add: login_catch_def)
  with assms(1) show ?thesis unfolding login_def try_catch_Inl_iff by auto
qed

lemma errorMessage_invalid_login: "errorMessage (Error msg_invalid_login) = ''Erro ao fazer login''"
  by code_simp

lemma handleSubmit_rejected_sign_in:
  assumes "fault e (length (calls w)) = Some (cd, msg)"
  shows "page_error (fst (handleSubmit e (p, w))) =
           (if cd = ''auth/invalid-credential'' \<or> cd = ''auth/wrong-password''
            then ''Erro ao fazer login'' else errorMessage (FirebaseError cd msg))"
proof -
  from assms have "signInWithEmailAndPassword e (page_email p) (page_password p) w =
      (Inl (FirebaseError cd msg), w\<lparr>calls := calls w @ [SignInWithEmailAndPassword (page_email p) (page_password p)]\<rparr>)"
    by (simp add: signInWithEmailAndPassword_iff)
  then have "login e (page_email p) (page_password p) w =
      (Inl (login_catch (FirebaseError cd msg)),
       w\<lparr>calls := calls w @ [SignInWithEmailAndPassword (page_email p) (page_password p)]\<rparr>)"
    by (simp add: login_def login_try_def try_catch_def bind_def)
  then show ?thesis
    by (simp add: handleSubmit_def Let_def login_catch_def errorMessage_invalid_login)
qed

section \<open>The invite-code generator\<close>

text \<open>
  C9. \<open>generateUniqueInviteCode\<close> always terminates. From every state and for every
  behaviour of the vendor and of the random source it ends with an outcome, having issued
  at most 11 existence checks and nothing else. It generates one code per check, the first
  before the loop, so the loop body runs at most 10 times (6 random draws are made per
  generated code). When the vendor serves the calls of the run the outcome is a returned
  code, also when every generated code collides.
\<close>

theorem generateUniqueInviteCode_terminates:
  "\<exists>r w' cs. generateUniqueInviteCode e w = (r, w') \<and>
      calls w' = calls w @ cs \<and> length cs \<le> 11 \<and> (\<forall>x\<in>set cs. isCheck x) \<and>
      draws w' = draws w + 6 * length cs \<and>
      ((\<forall>n\<ge>length (calls w). fault e n = None) \<longrightarrow> (\<exists>c. r = Inr c))"
proof -
  obtain r w' where rw: "generateUniqueInviteCode e w = (r, w')"
    by (cases "generateUniqueInviteCode e w")
  from generateUniqueInviteCode_spec [OF rw] obtain cs where
    cs: "w' = w\<lparr>calls := calls w @ cs, draws := draws w + 6 * length cs\<rparr>"
      "length cs \<le> 11" "\<forall>x\<in>set cs. isCheck x"
      "\<forall>err. r = Inl err \<longrightarrow> (\<exists>n cd msg. length (calls w) \<le> n \<and> fault e n = Some (cd, msg) \<and>
                 err = FirebaseError cd msg)"
    by blast
  have "(\<forall>n\<ge>length (calls w). fault e n = None) \<longrightarrow> (\<exists>c. r = Inr c)"
    using cs(4) by (cases r) auto
  with rw cs(1-3) show ?thesis by simp
qed

text \<open>
  The run in which every generated code collides: the one stored code is \<open>MPAAAAAA\<close> and
  every draw gives index 0. The function makes 11 checks and returns.
\<close>

theorem generateUniqueInviteCode_terminates_witness:
  "(\<forall>n. fault env_zero n = None) \<and>
   fst (generateUniqueInviteCode env_zero world_one) = Inr ''MPAAAAAA'' \<and>
   length (calls (snd (generateUniqueInviteCode env_zero world_one))) = 11 \<and>
   draws (snd (generateUniqueInviteCode env_zero world_one)) = 66"
proof -
  have served: "\<forall>n. fault env_zero n = None" by (simp add: env_zero_def)
  have res: "fst (generateUniqueInviteCode env_zero world_one) = Inr ''MPAAAAAA''"
    by code_simp
  have len: "length (calls (snd (generateUniqueInviteCode env_zero world_one))) = 11"
    by code_simp
  have start: "calls world_one = []" "draws world_one = 0" by (simp_all add: world_one_def)
  from generateUniqueInviteCode_terminates [of env_zero world_one] served res len start
  show ?thesis by auto
qed

text \<open>
  C1, as stated, fails: with the stored code \<open>MPAAAAAA\<close> and a random source that keeps
  drawing index 0, the call succeeds and returns \<open>MPAAAAAA\<close>, the invite code of an
  existing user.
\<close>

theorem generateUniqueInviteCode_collision:
  "fst (generateUniqueInviteCode env_zero world_one) = Inr ''MPAAAAAA'' \<and>
   inviteCode (snd (hd (users world_one))) = ''MPAAAAAA''"
  by code_simp

text \<open>
  C1, amended. A successful call of \<open>generateUniqueInviteCode\<close> leaves the \<open>users\<close>
  collection as it was, the last existence check it made was for the code it returns, and
  that code is not the invite code of any user document, unless the attempts were
  exhausted: the function made 11 existence checks and each of them was for a stored code.
\<close>

theorem generateUniqueInviteCode_unique_or_exhausted:
  assumes "generateUniqueInviteCode e w = (Inr c, w')"
  shows "users w' = users w \<and>
         (\<exists>cs. calls w' = calls w @ cs \<and> cs \<noteq> [] \<and>
            last cs = GetDocs ''users'' ''inviteCode'' c \<and>
            (c \<notin> inviteCodes w \<or>
             (length cs = 11 \<and>
              (\<forall>x\<in>set cs. \<exists>v\<in>inviteCodes w. x = GetDocs ''users'' ''inviteCode'' v))))"
proof -
  from generateUniqueInviteCode_spec [OF assms] obtain cs where
    cs: "w' = w\<lparr>calls := calls w @ cs, draws := draws w + 6 * length cs\<rparr>"
      "c \<notin> inviteCodes w \<or>
               (length cs = 11 \<and>
                (\<forall>x\<in>set cs. \<exists>v\<in>inviteCodes w. x = GetDocs ''users'' ''inviteCode'' v))"
    by blast
  from cs(1) have u: "users w' = users w" and c: "calls w' = calls w @ cs" by simp_all
  from generateUniqueInviteCode_last [OF assms] obtain cs' where
    "calls w' = calls w @ cs' @ [GetDocs ''users'' ''inviteCode'' c]"
    by blast
  with c have "cs = cs' @ [GetDocs ''users'' ''inviteCode'' c]" by simp
  then have "cs \<noteq> []" "last cs = GetDocs ''users'' ''inviteCode'' c" by simp_all
  with u c cs(2) show ?thesis by blast
qed

theorem generateUniqueInviteCode_unique_or_exhausted_witness:
  "generateUniqueInviteCode env_count world_one =
     (Inr ''MPABCDEF'', snd (generateUniqueInviteCode env_count world_one)) \<and>
   users (snd (generateUniqueInviteCode env_count world_one)) = users world_one \<and>
   calls (snd (generateUniqueInviteCode env_count world_one)) =
     [GetDocs ''users'' ''inviteCode'' ''MPABCDEF''] \<and>
   inviteCodes world_one = {''MPAAAAAA''} \<and> ''MPABCDEF'' \<notin> inviteCodes world_one"
proof -
  have run: "generateUniqueInviteCode env_count world_one =
     (Inr ''MPABCDEF'', snd (generateUniqueInviteCode env_count world_one))"
    by code_simp
  have cs: "calls (snd (generateUniqueInviteCode env_count world_one)) =
     [GetDocs ''users'' ''inviteCode'' ''MPABCDEF'']"
    by code_simp
  have codes: "inviteCodes world_one = {''MPAAAAAA''}"
    by (simp add: inviteCodes_def world_one_def)
  from run cs codes generateUniqueInviteCode_unique_or_exhausted [OF run] show ?thesis by simp
qed

text \<open>
  C8. Every invite code the generator produces has 8 characters: \<open>MP\<close> followed by six
  characters from A to Z and 0 to 9, given that every value of
  \<open>Math.floor(Math.random() * chars.length)\<close> is below 36, as \<open>Math.random()\<close> lies in
  [0, 1). On a successful registration the new user's document holds, as its \<open>inviteCode\<close>,
  a code returned by \<open>generateUniqueInviteCode\<close>, and it has this shape.
\<close>

theorem register_stores_generated_code:
  assumes "\<forall>k. random e k < 36"
  shows "wellFormedInviteCode (fst (generateInviteCode e w)) \<and>
         (register e em pw ic w = (Inr u, w') \<longrightarrow>
            (\<exists>d wg wg'. map_of (users w') (uid (credential e)) = Some d \<and>
               generateUniqueInviteCode e wg = (Inr (inviteCode d), wg') \<and>
               wellFormedInviteCode (inviteCode d)))"
proof (intro conjI impI)
  show "wellFormedInviteCode (fst (generateInviteCode e w))"
    using assms by (rule generateInviteCode_wellFormed)
next
  assume "register e em pw ic w = (Inr u, w')"
  then have "register_try e em pw ic w = (Inr u, w')" by (simp add: register_Inr_iff)
  from register_try_success [OF this] obtain inviter c wg wg' where
    gen: "generateUniqueInviteCode e wg = (Inr c, wg')" and
    us: "users w' = upsert (uid (credential e))
        \<lparr>email = em, balance = 0, inviteCode = c, invitedBy = or_null inviter,
         totalEarned = 0, totalWithdrawn = 0, role = ''user'', createdAt = ServerTimestamp\<rparr>
        (users w)"
    by blast
  from generateUniqueInviteCode_spec [OF gen] obtain w1 where "c = fst (generateInviteCode e w1)"
    by blast
  with assms have "wellFormedInviteCode c" by (simp add: generateInviteCode_wellFormed)
  with gen us show "\<exists>d wg wg'. map_of (users w') (uid (credential e)) = Some d \<and>
               generateUniqueInviteCode e wg = (Inr (inviteCode d), wg') \<and>
               wellFormedInviteCode (inviteCode d)"
    by (simp add: map_of_upsert) blast
qed


theorem register_stores_generated_code_witness:
  "(\<forall>k. random env_count k < 36) \<and>
   fst (generateInviteCode env_count world_one) = ''MPABCDEF'' \<and>
   wellFormedInviteCode ''MPABCDEF'' \<and>
   register env_count ''b@x.io'' ''pw'' None world_one =
     (Inr (), snd (register env_count ''b@x.io'' ''pw'' None world_one)) \<and>
   map_of (users (snd (register env_count ''b@x.io'' ''pw'' None world_one))) ''u2'' \<noteq> None"
proof -
  have draws: "\<forall>k. random env_count k < 36" by (simp add: env_count_def)
  have gen: "fst (generateInviteCode env_count world_one) = ''MPABCDEF''" by code_simp
  have run: "register env_count ''b@x.io'' ''pw'' None world_one =
     (Inr (), snd (register env_count ''b@x.io'' ''pw'' None world_one))"
    by code_simp
  have cred: "uid (credential env_count) = ''u2''" by (simp add: env_count_def)
  from register_stores_generated_code [OF draws, of world_one "''b@x.io''" "''pw''" None "()"
      "snd (register env_count ''b@x.io'' ''pw'' None world_one)"] draws gen run cred
  show ?thesis by auto
qed

section \<open>Registration\<close>

text \<open>
  C3. On a successful \<open>register\<close> call with an invite code (a non-empty string; the empty
  string counts as no code) the lookup has matched at least one user, that is, the
  \<open>inviteCode\<close> of at least one user document equals what \<open>toUpperCase()\<close> returns for the
  supplied code, and the \<open>invites\<close> collection has grown by exactly one record, whose
  \<open>inviterId\<close> is the document id of the first matching user, \<open>invitedId\<close> the new user's
  uid, \<open>level\<close> 1 and \<open>status\<close> pending. With no invite code the \<open>invites\<close> collection is
  unchanged. Document ids are not empty, as the vendor guarantees.
\<close>

theorem register_writes_invite_record:
  assumes "register e em pw ic w = (Inr u, w')" and "\<forall>d\<in>set (users w). fst d \<noteq> []"
  shows "case ic of
           None \<Rightarrow> invites w' = invites w
         | Some x \<Rightarrow>
             if x = [] then invites w' = invites w
             else \<exists>m ms. filter (\<lambda>d. inviteCode (snd d) = toUpperCase e x) (users w) = m # ms \<and>
                    invites w' = invites w @
                      [\<lparr>inviterId = fst m, invitedId = uid (credential e), level = 1,
                        status = ''pending'', invite_createdAt = ServerTimestamp\<rparr>]"
proof -
  from assms(1) have "register_try e em pw ic w = (Inr u, w')" by (simp add: register_Inr_iff)
  from register_try_success [OF this] obtain inviter lk where
    lk: "lookupInviter e ic w = (Inr inviter, w\<lparr>calls := calls w @ lk\<rparr>)" and
    inv: "invites w' = invites w @
        (case or_null inviter of
           Null \<Rightarrow> []
         | Value i \<Rightarrow> [\<lparr>inviterId = i, invitedId = uid (credential e), level = 1,
                       status = ''pending'', invite_createdAt = ServerTimestamp\<rparr>])"
    by blast
  from successful_lookup [OF lk assms(2)] inv show ?thesis
    by (auto split: option.splits if_splits)
qed

theorem register_writes_invite_record_witness:
  "register env_count ''b@x.io'' ''pw'' (Some ''mpaaaaaa'') world_one =
     (Inr (), snd (register env_count ''b@x.io'' ''pw'' (Some ''mpaaaaaa'') world_one)) \<and>
   map fst (users world_one) = [''u1''] \<and>
   toUpperCase env_count ''mpaaaaaa'' = ''MPAAAAAA'' \<and>
   map (\<lambda>d. inviteCode (snd d)) (users world_one) = [''MPAAAAAA''] \<and>
   invites (snd (register env_count ''b@x.io'' ''pw'' (Some ''mpaaaaaa'') world_one)) =
     [\<lparr>inviterId = ''u1'', invitedId = ''u2'', level = 1, status = ''pending'',
       invite_createdAt = ServerTimestamp\<rparr>]"
proof -
  have run: "register env_count ''b@x.io'' ''pw'' (Some ''mpaaaaaa'') world_one =
     (Inr (), snd (register env_count ''b@x.io'' ''pw'' (Some ''mpaaaaaa'') world_one))"
    by code_simp
  have ids: "\<forall>d\<in>set (users world_one). fst d \<noteq> []" by (simp add: world_one_def)
  have up: "toUpperCase env_count ''mpaaaaaa'' = ''MPAAAAAA''" by code_simp
  have start: "invites world_one = []" "uid (credential env_count) = ''u2''"
    "filter (\<lambda>d. inviteCode (snd d) = ''MPAAAAAA'') (users world_one) = users world_one"
    "fst (hd (users world_one)) = ''u1''"
    by (simp_all add: world_one_def env_count_def)
  have keys: "map fst (users world_one) = [''u1'']" by (simp add: world_one_def)
  have stored: "map (\<lambda>d. inviteCode (snd d)) (users world_one) = [''MPAAAAAA'']"
    by (simp add: world_one_def)
  from register_writes_invite_record [OF run ids] run keys up stored start
  show ?thesis by auto
qed

text \<open>
  C5. Every \<open>register\<close> call with an invite code (a non-empty string) issues, as its first
  request and whatever its outcome, the query of \<open>users\<close> for the documents whose
  \<open>inviteCode\<close> equals what \<open>toUpperCase()\<close> returns for the supplied code. When the call
  succeeds, the new user's document is written with \<open>invitedBy\<close> equal to the document id
  of the first document of the answer. With no invite code a successful call writes
  \<open>invitedBy\<close> as null. Document ids are not empty, as the vendor guarantees.
\<close>

theorem register_sets_invitedBy:
  assumes "register e em pw ic w = (r, w')" and "\<forall>d\<in>set (users w). fst d \<noteq> []"
  shows "case ic of
           None \<Rightarrow>
             r = Inr () \<longrightarrow>
               (\<exists>d. map_of (users w') (uid (credential e)) = Some d \<and> invitedBy d = Null)
         | Some x \<Rightarrow>
             if x = []
             then r = Inr () \<longrightarrow>
                    (\<exists>d. map_of (users w') (uid (credential e)) = Some d \<and> invitedBy d = Null)
             else (\<exists>cs. calls w' =
                          calls w @ GetDocs ''users'' ''inviteCode'' (toUpperCase e x) # cs) \<and>
                  (r = Inr () \<longrightarrow>
                     (\<exists>d m ms. map_of (users w') (uid (credential e)) = Some d \<and>
                        filter (\<lambda>d. inviteCode (snd d) = toUpperCase e x) (users w) = m # ms \<and>
                        invitedBy d = Value (fst m)))"
proof -
  from assms(1) obtain r0 where run0: "register_try e em pw ic w = (r0, w')"
    unfolding register_def by (blast dest: try_catch_world)
  have first: "\<exists>cs. calls w' = calls w @ GetDocs ''users'' ''inviteCode'' (toUpperCase e x) # cs"
    if "ic = Some x" "x \<noteq> []" for x
    using run0 that register_try_lookup_first by blast
  have stored: "\<exists>d. map_of (users w') (uid (credential e)) = Some d \<and>
      (case ic of
         None \<Rightarrow> invitedBy d = Null
       | Some x \<Rightarrow>
           if x = [] then invitedBy d = Null
           else \<exists>m ms. filter (\<lambda>d. inviteCode (snd d) = toUpperCase e x) (users w) = m # ms \<and>
                  invitedBy d = Value (fst m))"
    if ok: "r = Inr ()"
  proof -
    from assms(1) ok have "register_try e em pw ic w = (Inr (), w')"
      by (simp add: register_Inr_iff)
    from register_try_success [OF this] obtain inviter lk c where
      lk: "lookupInviter e ic w = (Inr inviter, w\<lparr>calls := calls w @ lk\<rparr>)" and
      us: "users w' = upsert (uid (credential e))
        \<lparr>email = em, balance = 0, inviteCode = c, invitedBy = or_null inviter,
         totalEarned = 0, totalWithdrawn = 0, role = ''user'', createdAt = ServerTimestamp\<rparr>
        (users w)"
      by blast
    let ?d = "\<lparr>email = em, balance = 0, inviteCode = c, invitedBy = or_null inviter,
         totalEarned = 0, totalWithdrawn = 0, role = ''user'', createdAt = ServerTimestamp\<rparr>"
    have "map_of (users w') (uid (credential e)) = Some ?d" by (simp add: us map_of_upsert)
    moreover from successful_lookup [OF lk assms(2)]
    have "case ic of
         None \<Rightarrow> invitedBy ?d = Null
       | Some x \<Rightarrow>
           if x = [] then invitedBy ?d = Null
           else \<exists>m ms. filter (\<lambda>d. inviteCode (snd d) = toUpperCase e x) (users w) = m # ms \<and>
                  invitedBy ?d = Value (fst m)"
      by (auto split: option.splits if_splits)
    ultimately show ?thesis by blast
  qed
  show ?thesis
  proof (cases ic)
    case None
    with stored show ?thesis by auto
  next
    case (Some x)
    show ?thesis
    proof (cases "x = []")
      case True
      with Some stored show ?thesis by auto
    next
      case False
      from first [OF Some False] have a: "\<exists>cs. calls w' =
          calls w @ GetDocs ''users'' ''inviteCode'' (toUpperCase e x) # cs" .
      have b: "r = Inr () \<longrightarrow>
                     (\<exists>d m ms. map_of (users w') (uid (credential e)) = Some d \<and>
                        filter (\<lambda>d. inviteCode (snd d) = toUpperCase e x) (users w) = m # ms \<and>
                        invitedBy d = Value (fst m))"
      proof
        assume "r = Inr ()"
        from stored [OF this] Some False
        show "\<exists>d m ms. map_of (users w') (uid (credential e)) = Some d \<and>
                        filter (\<lambda>d. inviteCode (snd d) = toUpperCase e x) (users w) = m # ms \<and>
                        invitedBy d = Value (fst m)"
          by auto
      qed
      from Some False a b show ?thesis by simp
    qed
  qed
qed

text \<open>
  The code \<open>mpaaaaaa\<close> is sent as \<open>MPAAAAAA\<close>, which is the stored code of user \<open>u1\<close>.
\<close>

theorem register_sets_invitedBy_witness:
  "register env_count ''b@x.io'' ''pw'' (Some ''mpaaaaaa'') world_one =
     (Inr (), snd (register env_count ''b@x.io'' ''pw'' (Some ''mpaaaaaa'') world_one)) \<and>
   map fst (users world_one) = [''u1''] \<and>
   toUpperCase env_count ''mpaaaaaa'' = ''MPAAAAAA'' \<and>
   hd (calls (snd (register env_count ''b@x.io'' ''pw'' (Some ''mpaaaaaa'') world_one))) =
     GetDocs ''users'' ''inviteCode'' ''MPAAAAAA'' \<and>
   (\<exists>d. map_of (users (snd (register env_count ''b@x.io'' ''pw'' (Some ''mpaaaaaa'') world_one)))
           ''u2'' = Some d \<and> invitedBy d = Value ''u1'')"
proof -
  have run: "register env_count ''b@x.io'' ''pw'' (Some ''mpaaaaaa'') world_one =
     (Inr (), snd (register env_count ''b@x.io'' ''pw'' (Some ''mpaaaaaa'') world_one))"
    by code_simp
  have ids: "\<forall>d\<in>set (users world_one). fst d \<noteq> []" by (simp add: world_one_def)
  have up: "toUpperCase env_count ''mpaaaaaa'' = ''MPAAAAAA''" by code_simp
  have start: "uid (credential env_count) = ''u2''" "calls world_one = []"
    "filter (\<lambda>d. inviteCode (snd d) = ''MPAAAAAA'') (users world_one) = users world_one"
    "fst (hd (users world_one)) = ''u1''"
    by (simp_all add: world_one_def env_count_def)
  have keys: "map fst (users world_one) = [''u1'']" by (simp add: world_one_def)
  from register_sets_invitedBy [OF run ids] run keys up start
  show ?thesis by auto
qed

text \<open>
  C10. Whatever the outcome of a \<open>register\<close> call, it leaves the \<open>users\<close> collection as it
  was or with one document set, under the new account's uid, whose \<open>balance\<close>,
  \<open>totalEarned\<close> and \<open>totalWithdrawn\<close> are 0 and whose \<open>role\<close> is user; and when the call
  succeeds that document is there. No condition is put on the invite code.
\<close>

theorem register_initial_fields:
  assumes "register e em pw ic w = (r, w')"
  shows "(users w' = users w \<or>
          (\<exists>d. users w' = upsert (uid (credential e)) d (users w) \<and>
             balance d = 0 \<and> totalEarned d = 0 \<and> totalWithdrawn d = 0 \<and> role d = ''user'')) \<and>
         (r = Inr () \<longrightarrow>
          (\<exists>d. map_of (users w') (uid (credential e)) = Some d \<and>
             balance d = 0 \<and> totalEarned d = 0 \<and> totalWithdrawn d = 0 \<and> role d = ''user''))"
proof
  from assms obtain r0 where "register_try e em pw ic w = (r0, w')"
    unfolding register_def by (blast dest: try_catch_world)
  from register_try_users [OF this]
  show "users w' = users w \<or>
          (\<exists>d. users w' = upsert (uid (credential e)) d (users w) \<and>
             balance d = 0 \<and> totalEarned d = 0 \<and> totalWithdrawn d = 0 \<and> role d = ''user'')"
  proof
    assume "users w' = users w"
    then show ?thesis by simp
  next
    assume "\<exists>c inviter. users w' = upsert (uid (credential e))
        \<lparr>email = em, balance = 0, inviteCode = c, invitedBy = inviter,
         totalEarned = 0, totalWithdrawn = 0, role = ''user'', createdAt = ServerTimestamp\<rparr>
        (users w)"
    then obtain c inviter where "users w' = upsert (uid (credential e))
        \<lparr>email = em, balance = 0, inviteCode = c, invitedBy = inviter,
         totalEarned = 0, totalWithdrawn = 0, role = ''user'', createdAt = ServerTimestamp\<rparr>
        (users w)"
      by blast
    then have "\<exists>d. users w' = upsert (uid (credential e)) d (users w) \<and>
             balance d = 0 \<and> totalEarned d = 0 \<and> totalWithdrawn d = 0 \<and> role d = ''user''"
      by (intro exI [of _ "\<lparr>email = em, balance = 0, inviteCode = c, invitedBy = inviter,
         totalEarned = 0, totalWithdrawn = 0, role = ''user'', createdAt = ServerTimestamp\<rparr>"]) simp
    then show ?thesis by simp
  qed
next
  show "r = Inr () \<longrightarrow>
          (\<exists>d. map_of (users w') (uid (credential e)) = Some d \<and>
             balance d = 0 \<and> totalEarned d = 0 \<and> totalWithdrawn d = 0 \<and> role d = ''user'')"
  proof
    assume "r = Inr ()"
    with assms have "register_try e em pw ic w = (Inr (), w')" by (simp add: register_Inr_iff)
    from register_try_success [OF this] obtain inviter c where
      "users w' = upsert (uid (credential e))
        \<lparr>email = em, balance = 0, inviteCode = c, invitedBy = or_null inviter,
         totalEarned = 0, totalWithdrawn = 0, role = ''user'', createdAt = ServerTimestamp\<rparr>
        (users w)"
      by blast
    then show "\<exists>d. map_of (users w') (uid (credential e)) = Some d \<and>
             balance d = 0 \<and> totalEarned d = 0 \<and> totalWithdrawn d = 0 \<and> role d = ''user''"
      by (simp add: map_of_upsert)
  qed
qed

theorem register_initial_fields_witness:
  "register env_count ''b@x.io'' ''pw'' None world_one =
     (Inr (), snd (register env_count ''b@x.io'' ''pw'' None world_one)) \<and>
   (\<exists>d. map_of (users (snd (register env_count ''b@x.io'' ''pw'' None world_one))) ''u2'' = Some d \<and>
      balance d = 0 \<and> totalEarned d = 0 \<and> totalWithdrawn d = 0 \<and> role d = ''user'')"
proof -
  have run: "register env_count ''b@x.io'' ''pw'' None world_one =
     (Inr (), snd (register env_count ''b@x.io'' ''pw'' None world_one))"
    by code_simp
  have cred: "uid (credential env_count) = ''u2''" by (simp add: env_count_def)
  from register_initial_fields [OF run] run cred show ?thesis by auto
qed



text \<open>
  C6, as stated, fails: that the vendor accepts the email and password is not enough. With
  the invite code omitted, the sign-up, \<open>getIdToken\<close> and the existence check served and
  the \<open>setDoc\<close> of the user document rejected, \<open>register\<close> throws the vendor's error; the
  account has been created and no user document is written.
\<close>

theorem register_throws_when_setDoc_rejected:
  "fault env_fourth_rejected 0 = None \<and>
   fst (register env_fourth_rejected ''b@x.io'' ''pw'' None world_one) =
     Inl (FirebaseError ''permission-denied'' ''Missing or insufficient permissions.'') \<and>
   calls (snd (register env_fourth_rejected ''b@x.io'' ''pw'' None world_one)) =
     [CreateUserWithEmailAndPassword ''b@x.io'' ''pw'', GetIdToken False,
      GetDocs ''users'' ''inviteCode'' ''MPABCDEF'', SetDoc ''users'' ''u2''] \<and>
   accounts (snd (register env_fourth_rejected ''b@x.io'' ''pw'' None world_one)) =
     [(''u1'', ''a@x.io''), (''u2'', ''b@x.io'')] \<and>
   map fst (users (snd (register env_fourth_rejected ''b@x.io'' ''pw'' None world_one))) =
     [''u1'']"
  by code_simp

text \<open>
  C6, amended. Registration succeeds without a referral code when the vendor serves every
  call of the run. With the invite code omitted, \<open>register\<close> then completes without error;
  the requests it issues are the sign-up, \<open>getIdToken\<close>, the existence checks of
  \<open>generateUniqueInviteCode\<close> and the \<open>setDoc\<close> of the user document, so no lookup of a
  referring user is performed; the account and the user document (with \<open>invitedBy\<close> null)
  are created and no invite record is written.
\<close>

theorem register_without_invite_code:
  assumes "\<forall>n\<ge>length (calls w). fault e n = None"
  shows "\<exists>w' c cs wg wg' d.
           register e em pw None w = (Inr (), w') \<and>
           generateUniqueInviteCode e wg = (Inr c, wg') \<and> calls wg' = calls wg @ cs \<and>
           calls w' = calls w @ [CreateUserWithEmailAndPassword em pw, GetIdToken False] @ cs @
             [SetDoc ''users'' (uid (credential e))] \<and>
           accounts w' = accounts w @ [(uid (credential e), em)] \<and>
           map_of (users w') (uid (credential e)) = Some d \<and> email d = em \<and>
           invitedBy d = Null \<and> invites w' = invites w"
proof -
  obtain r w' where run: "register_try e em pw None w = (r, w')"
    by (cases "register_try e em pw None w")
  have "r = Inr ()"
  proof (cases r)
    case (Inl err)
    with run register_try_error [of e em pw None w err w'] assms show ?thesis by auto
  next
    case (Inr u)
    then show ?thesis by simp
  qed
  with run have ok: "register_try e em pw None w = (Inr (), w')" by simp
  have lk: "lookupInviter e None w = (Inr None, w)" by (simp add: lookupInviter_iff)
  from register_try_success [OF ok] obtain inviter lk c cs wg wg' where
    s: "lookupInviter e None w = (Inr inviter, w\<lparr>calls := calls w @ lk\<rparr>)"
     "generateUniqueInviteCode e wg = (Inr c, wg')" "calls wg' = calls wg @ cs"
     "users w' = upsert (uid (credential e))
        \<lparr>email = em, balance = 0, inviteCode = c, invitedBy = or_null inviter,
         totalEarned = 0, totalWithdrawn = 0, role = ''user'', createdAt = ServerTimestamp\<rparr>
        (users w)"
     "invites w' = invites w @
        (case or_null inviter of
           Null \<Rightarrow> []
         | Value i \<Rightarrow> [\<lparr>inviterId = i, invitedId = uid (credential e), level = 1,
                       status = ''pending'', invite_createdAt = ServerTimestamp\<rparr>])"
     "accounts w' = accounts w @ [(uid (credential e), em)]"
     "calls w' = calls w @ lk @
        [CreateUserWithEmailAndPassword em pw, GetIdToken False] @ cs @
        [SetDoc ''users'' (uid (credential e))] @
        (case or_null inviter of Null \<Rightarrow> [] | Value i \<Rightarrow> [AddDoc ''invites''])"
    by blast
  from s(1) lk have i: "inviter = None" and "w\<lparr>calls := calls w @ lk\<rparr> = w" by simp_all
  then have "calls (w\<lparr>calls := calls w @ lk\<rparr>) = calls w" by simp
  then have l: "lk = []" by simp
  have n: "or_null None = Null" by (simp add: or_null_def)
  from ok have "register e em pw None w = (Inr (), w')" by (simp add: register_Inr_iff)
  moreover from s(4) have "map_of (users w') (uid (credential e)) =
     Some \<lparr>email = em, balance = 0, inviteCode = c, invitedBy = Null,
         totalEarned = 0, totalWithdrawn = 0, role = ''user'', createdAt = ServerTimestamp\<rparr>"
    by (simp add: i n map_of_upsert)
  moreover from s(5) have "invites w' = invites w" by (simp add: i n)
  moreover from s(7) have "calls w' = calls w @ [CreateUserWithEmailAndPassword em pw, GetIdToken False] @ cs @
             [SetDoc ''users'' (uid (credential e))]"
    by (simp add: i n l)
  ultimately show ?thesis using s(2,3,6) by force
qed

theorem register_without_invite_code_witness:
  "(\<forall>n. fault env_count n = None) \<and>
   fst (register env_count ''b@x.io'' ''pw'' None world_one) = Inr () \<and>
   calls (snd (register env_count ''b@x.io'' ''pw'' None world_one)) =
     [CreateUserWithEmailAndPassword ''b@x.io'' ''pw'', GetIdToken False,
      GetDocs ''users'' ''inviteCode'' ''MPABCDEF'', SetDoc ''users'' ''u2''] \<and>
   accounts (snd (register env_count ''b@x.io'' ''pw'' None world_one)) =
     [(''u1'', ''a@x.io''), (''u2'', ''b@x.io'')]"
proof -
  have served: "\<forall>n\<ge>length (calls world_one). fault env_count n = None"
    by (simp add: env_count_def)
  have run: "fst (register env_count ''b@x.io'' ''pw'' None world_one) = Inr ()"
    by code_simp
  have cs: "calls (snd (register env_count ''b@x.io'' ''pw'' None world_one)) =
     [CreateUserWithEmailAndPassword ''b@x.io'' ''pw'', GetIdToken False,
      GetDocs ''users'' ''inviteCode'' ''MPABCDEF'', SetDoc ''users'' ''u2'']"
    by code_simp
  have start: "accounts world_one = [(''u1'', ''a@x.io'')]" "uid (credential env_count) = ''u2''"
    by (simp_all add: world_one_def env_count_def)
  have all_served: "\<forall>n. fault env_count n = None" by (simp add: env_count_def)
  from register_without_invite_code [OF served, of "''b@x.io''" "''pw''"] all_served run cs start
  show ?thesis by auto
qed

section \<open>The channel of the requests\<close>

text \<open>
  C2, as stated, fails: with a token present, the request by which the home page obtains
  the statistics it renders is a \<open>fetch\<close> of \<open>/api/stats/today\<close>, which is not a call of
  the vendor SDK, and the statistics stored are the body of its response.
\<close>

theorem fetchStats_bypasses_sdk:
  "calls (snd (fetchStats (Inr response_ok) (home_initial, world_signed_in))) =
     [Fetch ''/api/stats/today'' [(''Authorization'', ''Bearer tok'')]] \<and>
   viaSdk (Fetch ''/api/stats/today'' [(''Authorization'', ''Bearer tok'')]) = False \<and>
   stats (fst (fetchStats (Inr response_ok) (home_initial, world_signed_in))) =
     \<lparr>todayEarnings = 5, newInvites = 2\<rparr>"
  by code_simp

text \<open>
  C2, amended. Every request that \<open>register\<close>, \<open>login\<close>, \<open>logout\<close> and \<open>refreshUser\<close>
  issue, whatever their outcome, is a call of the vendor SDK. The home page does not
  obtain its statistics through the SDK: when the token is present \<open>fetchStats\<close> issues
  exactly one request, a \<open>fetch\<close> of \<open>/api/stats/today\<close> with the header
  \<open>Authorization: Bearer\<close> and the token, and the statistics it leaves are the ones it
  found or the JSON body of the response; when the token is absent or empty it issues no
  request.
\<close>

theorem client_request_channels:
  "sdk_only (register e em pw ic) \<and> sdk_only (login e em pw) \<and> sdk_only (logout e) \<and>
   sdk_only (refreshUser e) \<and>
   calls (snd (fetchStats outcome (h, w))) =
     (case token w of
        None \<Rightarrow> calls w
      | Some t \<Rightarrow>
          if t = [] then calls w
          else calls w @ [Fetch ''/api/stats/today'' [(''Authorization'', ''Bearer '' @ t)]]) \<and>
   viaSdk (Fetch ''/api/stats/today'' hs) = False \<and>
   (stats (fst (fetchStats outcome (h, w))) = stats h \<or>
    (\<exists>resp. outcome = Inr resp \<and> json resp = Inr (stats (fst (fetchStats outcome (h, w))))))"
  using sdk_only_register sdk_only_login sdk_only_logout sdk_only_refreshUser
    fetchStats_calls [of outcome h w] fetchStats_stats [of outcome h w]
  by simp

theorem client_request_channels_witness:
  "list_all viaSdk (calls (snd (register env_count ''b@x.io'' ''pw'' (Some ''mpaaaaaa'') world_one))) \<and>
   calls (snd (fetchStats (Inr response_ok) (home_initial, world_signed_in))) =
     [Fetch ''/api/stats/today'' [(''Authorization'', ''Bearer tok'')]] \<and>
   json response_ok = Inr (stats (fst (fetchStats (Inr response_ok) (home_initial, world_signed_in))))"
proof -
  note inst = client_request_channels [of env_count "''b@x.io''" "''pw''" "Some ''mpaaaaaa''"
      "Inr response_ok" home_initial world_signed_in]
  from inst have "sdk_only (register env_count ''b@x.io'' ''pw'' (Some ''mpaaaaaa''))" by blast
  then obtain cs where "calls (snd (register env_count ''b@x.io'' ''pw'' (Some ''mpaaaaaa'') world_one))
      = calls world_one @ cs" "list_all viaSdk cs"
    unfolding sdk_only_def by (metis prod.collapse)
  moreover have "calls world_one = []" by (simp add: world_one_def)
  ultimately have a: "list_all viaSdk (calls (snd (register env_count ''b@x.io'' ''pw'' (Some ''mpaaaaaa'') world_one)))"
    by simp
  have tok: "token world_signed_in = Some ''tok''" "calls world_signed_in = []"
    by (simp_all add: world_signed_in_def world_one_def)
  from inst tok have b: "calls (snd (fetchStats (Inr response_ok) (home_initial, world_signed_in))) =
     [Fetch ''/api/stats/today'' [(''Authorization'', ''Bearer tok'')]]"
    by simp
  have c: "json response_ok = Inr (stats (fst (fetchStats (Inr response_ok) (home_initial, world_signed_in))))"
    by code_simp
  from a b c show ?thesis by simp
qed

section \<open>The messages of the login page\<close>

text \<open>
  C7 does not hold of the login page. When the vendor rejects the sign-in with code
  \<open>auth/invalid-credential\<close> or \<open>auth/wrong-password\<close>, \<open>login\<close> replaces the error by a
  plain error without code before the page's handler sees it, so the page shows
  \<open>Erro ao fazer login\<close>, not the messages its handler maps these two codes to.
\<close>

theorem handleSubmit_loses_credential_messages:
  "page_error (fst (handleSubmit (env_rejecting ''auth/invalid-credential'')
      (page_filled, world_one))) = ''Erro ao fazer login'' \<and>
   page_error (fst (handleSubmit (env_rejecting ''auth/wrong-password'')
      (page_filled, world_one))) = ''Erro ao fazer login'' \<and>
   errorMessage (FirebaseError ''auth/invalid-credential''
      ''Firebase: Error (auth/invalid-credential).'') = ''E-mail ou senha incorretos.'' \<and>
   errorMessage (FirebaseError ''auth/wrong-password''
      ''Firebase: Error (auth/wrong-password).'') = ''Senha incorreta.''"
  by code_simp

end
